theory Spec2Isabelle
  imports Main
begin

section \<open>Python values\<close>

text \<open>
  A Python \<open>str\<close> is a sequence of Unicode code points, so it is modelled as a list of
  naturals; a code point is a natural below \<open>0x110000\<close>, and the surrogates
  \<open>0xD800..0xDFFF\<close> are code points a \<open>str\<close> may hold. \<open>S\<close> turns an ASCII literal
  into such a string. A \<open>bytes\<close> object is a list of naturals below 256.
\<close>

type_synonym pystr = "nat list"

definition S :: "string \<Rightarrow> pystr" where
  "S s = map of_char s"

text \<open>
  The exceptions the modelled code raises. \<open>Unmodelled\<close> and \<open>OutOfFuel\<close> are no
  exceptions of Python: the first marks a result this model has no value for (a
  floating-point number read by \<open>json.loads\<close>), the second a parse that used up its
  fuel.
\<close>

datatype py_error =
  UnicodeEncodeError | AttributeError | JSONDecodeError | Unmodelled | OutOfFuel

subsection \<open>\<open>str.encode('utf-8', 'strict')\<close>\<close>

definition is_surrogate :: "nat \<Rightarrow> bool" where
  "is_surrogate c \<longleftrightarrow> 0xD800 \<le> c \<and> c \<le> 0xDFFF"

text \<open>
  The UTF-8 bytes of one code point. The strict error handler raises on a surrogate;
  a natural from \<open>0x110000\<close> on is no code point and is refused as well.
\<close>

definition utf8_char :: "nat \<Rightarrow> py_error + nat list" where
  "utf8_char c =
     (if c < 0x80 then Inr [c]
      else if c < 0x800 then Inr [0xC0 + c div 0x40, 0x80 + c mod 0x40]
      else if c < 0x10000 then
        (if is_surrogate c then Inl UnicodeEncodeError
         else Inr [0xE0 + c div 0x1000, 0x80 + c div 0x40 mod 0x40, 0x80 + c mod 0x40])
      else if c < 0x110000 then
        Inr [0xF0 + c div 0x40000, 0x80 + c div 0x1000 mod 0x40,
             0x80 + c div 0x40 mod 0x40, 0x80 + c mod 0x40]
      else Inl UnicodeEncodeError)"

fun str_encode :: "pystr \<Rightarrow> py_error + nat list" where
  "str_encode [] = Inr []"
| "str_encode (c # cs) =
     (case utf8_char c of
        Inl e \<Rightarrow> Inl e
      | Inr bs \<Rightarrow> (case str_encode cs of Inl e \<Rightarrow> Inl e | Inr rest \<Rightarrow> Inr (bs @ rest)))"

subsection \<open>\<open>urllib.parse.quote\<close>\<close>

definition ALWAYS_SAFE :: "nat list" where
  "ALWAYS_SAFE =
     S ''ABCDEFGHIJKLMNOPQRSTUVWXYZabcdefghijklmnopqrstuvwxyz0123456789_.-~''"

text \<open>One digit of \<open>'{:02X}'.format(b)\<close>, for a digit value below 16.\<close>

definition hex_upper :: "nat \<Rightarrow> nat" where
  "hex_upper d = (if d < 10 then 0x30 + d else 0x41 + (d - 10))"

text \<open>\<open>'%{:02X}'.format(b)\<close> for a byte \<open>b\<close>.\<close>

definition percent_02X :: "nat \<Rightarrow> pystr" where
  "percent_02X b = [0x25, hex_upper (b div 16), hex_upper (b mod 16)]"

text \<open>\<open>_Quoter.__missing__\<close>: the text one byte is replaced by.\<close>

definition quoter :: "nat list \<Rightarrow> nat \<Rightarrow> pystr" where
  "quoter safe b = (if b \<in> set (ALWAYS_SAFE @ safe) then [b] else percent_02X b)"

text \<open>\<open>bytes.rstrip(chars)\<close>: drop the trailing bytes that are in \<open>chars\<close>.\<close>

definition bytes_rstrip :: "nat list \<Rightarrow> nat list \<Rightarrow> nat list" where
  "bytes_rstrip bs chars = rev (dropWhile (\<lambda>b. b \<in> set chars) (rev bs))"

text \<open>
  \<open>quote_from_bytes\<close>. \<open>safe.encode('ascii', 'ignore')\<close> drops the non-ASCII characters
  of \<open>safe\<close>. On the fast path every byte is an ASCII byte of the safe set, and
  \<open>bs.decode()\<close> is the string of the same code points.
\<close>

definition quote_from_bytes :: "nat list \<Rightarrow> pystr \<Rightarrow> pystr" where
  "quote_from_bytes bs safe =
     (if bs = [] then []
      else
        (let safe_bytes = filter (\<lambda>c. c < 128) safe in
         if bytes_rstrip bs (ALWAYS_SAFE @ safe_bytes) = [] then bs
         else concat (map (quoter safe_bytes) bs)))"

definition quote :: "pystr \<Rightarrow> pystr \<Rightarrow> py_error + pystr" where
  "quote string safe =
     (if string = [] then Inr string
      else (case str_encode string of
              Inl e \<Rightarrow> Inl e
            | Inr bs \<Rightarrow> Inr (quote_from_bytes bs safe)))"

section \<open>The range encoder\<close>

definition encode_range :: "pystr \<Rightarrow> py_error + pystr" where
  "encode_range range_a1 = quote range_a1 (S ''!:$'(),-._~'')"


section \<open>String helpers of the request builders\<close>

text \<open>\<open>str.isspace\<close> for one code point: the characters \<open>str.strip()\<close> removes.\<close>

definition isspace :: "nat \<Rightarrow> bool" where
  "isspace c \<longleftrightarrow>
     (0x09 \<le> c \<and> c \<le> 0x0D) \<or> (0x1C \<le> c \<and> c \<le> 0x20) \<or> c = 0x85 \<or> c = 0xA0 \<or>
     c = 0x1680 \<or> (0x2000 \<le> c \<and> c \<le> 0x200A) \<or> c = 0x2028 \<or> c = 0x2029 \<or>
     c = 0x202F \<or> c = 0x205F \<or> c = 0x3000"

definition strip :: "pystr \<Rightarrow> pystr" where
  "strip s = rev (dropWhile isspace (rev (dropWhile isspace s)))"

text \<open>\<open>s.split(sep)\<close> for a separator of one character: it always returns a segment.\<close>

fun split :: "nat \<Rightarrow> pystr \<Rightarrow> pystr list" where
  "split sep [] = [[]]"
| "split sep (c # cs) =
     (if c = sep then [] # split sep cs
      else (case split sep cs of
              [] \<Rightarrow> [[c]]
            | w # ws \<Rightarrow> (c # w) # ws))"

text \<open>\<open>sep.join(xs)\<close>.\<close>

fun join :: "pystr \<Rightarrow> pystr list \<Rightarrow> pystr" where
  "join sep [] = []"
| "join sep [x] = x"
| "join sep (x # y # ys) = x @ sep @ join sep (y # ys)"

text \<open>\<open>str(b)\<close> of a \<open>bool\<close>, and \<open>str.lower()\<close> on ASCII text (all it is applied to).\<close>

definition str_bool :: "bool \<Rightarrow> pystr" where
  "str_bool b = (if b then S ''True'' else S ''False'')"

definition lower :: "pystr \<Rightarrow> pystr" where
  "lower s = map (\<lambda>c. if 0x41 \<le> c \<and> c \<le> 0x5A then c + 0x20 else c) s"

text \<open>A parameter with a default value: \<open>None\<close> is the argument left out.\<close>

definition with_default :: "'a \<Rightarrow> 'a option \<Rightarrow> 'a" where
  "with_default d arg = (case arg of None \<Rightarrow> d | Some v \<Rightarrow> v)"

section \<open>JSON values and \<open>json.dumps(data, indent=2)\<close>\<close>

text \<open>
  The values the builders and the dispatcher exchange: \<open>None\<close>, \<open>bool\<close>, \<open>int\<close>, \<open>str\<close>,
  \<open>list\<close> and \<open>dict\<close> with string keys, a \<open>dict\<close> in insertion order. Floating-point
  numbers are left out of the model.
\<close>

datatype json =
    JNull
  | JBool bool
  | JInt int
  | JStr pystr
  | JList "json list"
  | JDict "(pystr \<times> json) list"

text \<open>The truth value Python gives a value in \<open>x or y\<close> and \<open>if x\<close>.\<close>

fun truthy :: "json \<Rightarrow> bool" where
  "truthy JNull = False"
| "truthy (JBool b) = b"
| "truthy (JInt i) = (i \<noteq> 0)"
| "truthy (JStr s) = (s \<noteq> [])"
| "truthy (JList xs) = (xs \<noteq> [])"
| "truthy (JDict kvs) = (kvs \<noteq> [])"

text \<open>\<open>d[k] = v\<close> on a \<open>dict\<close>: a present key keeps its place, a new key goes last.\<close>

fun setitem :: "(pystr \<times> json) list \<Rightarrow> pystr \<Rightarrow> json \<Rightarrow> (pystr \<times> json) list" where
  "setitem [] k v = [(k, v)]"
| "setitem ((k', v') # kvs) k v = (if k' = k then (k, v) # kvs else (k', v') # setitem kvs k v)"

definition hex_lower :: "nat \<Rightarrow> nat" where
  "hex_lower d = (if d < 10 then 0x30 + d else 0x61 + (d - 10))"

text \<open>\<open>'\\u{0:04x}'.format(n)\<close> for \<open>n < 0x10000\<close>.\<close>

definition u_escape :: "nat \<Rightarrow> pystr" where
  "u_escape n =
     [0x5C, 0x75, hex_lower (n div 0x1000), hex_lower (n div 0x100 mod 0x10),
      hex_lower (n div 0x10 mod 0x10), hex_lower (n mod 0x10)]"

text \<open>
  \<open>replace(match)\<close> of \<open>py_encode_basestring_ascii\<close>: the escape of one character that
  \<open>ESCAPE_ASCII\<close> matches. A character beyond the basic plane becomes a surrogate pair,
  \<open>0xd800 | ((n >> 10) & 0x3ff)\<close> and \<open>0xdc00 | (n & 0x3ff)\<close>, written here with
  \<open>div\<close> and \<open>mod\<close>.
\<close>

definition escape_char :: "nat \<Rightarrow> pystr" where
  "escape_char c =
     (if c = 0x5C then [0x5C, 0x5C]
      else if c = 0x22 then [0x5C, 0x22]
      else if c = 0x08 then [0x5C, 0x62]
      else if c = 0x0C then [0x5C, 0x66]
      else if c = 0x0A then [0x5C, 0x6E]
      else if c = 0x0D then [0x5C, 0x72]
      else if c = 0x09 then [0x5C, 0x74]
      else if c < 0x10000 then u_escape c
      else (let n = c - 0x10000;
                s1 = 0xD800 + n div 0x400 mod 0x400;
                s2 = 0xDC00 + n mod 0x400
            in u_escape s1 @ u_escape s2))"

text \<open>\<open>ESCAPE_ASCII\<close> matches a backslash, a double quote and all outside \<open>' '..'~'\<close>.\<close>

definition needs_escape :: "nat \<Rightarrow> bool" where
  "needs_escape c \<longleftrightarrow> c = 0x5C \<or> c = 0x22 \<or> c < 0x20 \<or> 0x7E < c"

definition encode_basestring_ascii :: "pystr \<Rightarrow> pystr" where
  "encode_basestring_ascii s =
     0x22 # concat (map (\<lambda>c. if needs_escape c then escape_char c else [c]) s) @ [0x22]"

text \<open>\<open>int.__repr__\<close>: the decimal digits, after a minus sign for a negative number.\<close>

fun nat_digits :: "nat \<Rightarrow> pystr" where
  "nat_digits n = (if n < 10 then [0x30 + n] else nat_digits (n div 10) @ [0x30 + n mod 10])"

declare nat_digits.simps [simp del]

definition int_repr :: "int \<Rightarrow> pystr" where
  "int_repr i = (if i < 0 then 0x2D # nat_digits (nat (- i)) else nat_digits (nat i))"

text \<open>\<open>'\\n' + _indent * level\<close> with \<open>_indent = ' ' * 2\<close>.\<close>

definition newline_indent :: "nat \<Rightarrow> pystr" where
  "newline_indent level = 0x0A # replicate (2 * level) 0x20"

text \<open>
  \<open>_iterencode\<close>, \<open>_iterencode_list\<close> and \<open>_iterencode_dict\<close> of \<open>json.encoder\<close>, with
  the chunks they yield joined: the item separator is \<open>','\<close> and the key separator
  \<open>': '\<close>, as \<open>indent\<close> is given. The level passed to the item functions is the one
  already increased.
\<close>

fun iterencode :: "json \<Rightarrow> nat \<Rightarrow> pystr"
  and iterencode_list :: "json list \<Rightarrow> nat \<Rightarrow> pystr list"
  and iterencode_dict :: "(pystr \<times> json) list \<Rightarrow> nat \<Rightarrow> pystr list"
where
  "iterencode JNull level = S ''null''"
| "iterencode (JBool b) level = (if b then S ''true'' else S ''false'')"
| "iterencode (JInt i) level = int_repr i"
| "iterencode (JStr s) level = encode_basestring_ascii s"
| "iterencode (JList lst) level =
     (if lst = [] then S ''[]''
      else S ''['' @ newline_indent (level + 1)
           @ join (S '','' @ newline_indent (level + 1)) (iterencode_list lst (level + 1))
           @ newline_indent level @ S '']'')"
| "iterencode (JDict dct) level =
     (if dct = [] then S ''{}''
      else S ''{'' @ newline_indent (level + 1)
           @ join (S '','' @ newline_indent (level + 1)) (iterencode_dict dct (level + 1))
           @ newline_indent level @ S ''}'')"
| "iterencode_list [] level = []"
| "iterencode_list (v # vs) level = iterencode v level # iterencode_list vs level"
| "iterencode_dict [] level = []"
| "iterencode_dict ((k, v) # kvs) level =
     (encode_basestring_ascii k @ S '': '' @ iterencode v level) # iterencode_dict kvs level"

definition dumps :: "json \<Rightarrow> pystr" where
  "dumps data = iterencode data 0"

section \<open>\<open>json.loads\<close>\<close>

text \<open>
  The decoder of \<open>json.decoder\<close> and \<open>json.scanner\<close>, reading the text that is left
  instead of an index into it. It is what a caller of the tools uses to read the
  envelope.
\<close>

definition is_ws :: "nat \<Rightarrow> bool" where
  "is_ws c \<longleftrightarrow> c = 0x20 \<or> c = 0x09 \<or> c = 0x0A \<or> c = 0x0D"

definition skip_ws :: "pystr \<Rightarrow> pystr" where
  "skip_ws s = dropWhile is_ws s"

definition is_digit :: "nat \<Rightarrow> bool" where
  "is_digit c \<longleftrightarrow> 0x30 \<le> c \<and> c \<le> 0x39"

definition hex_val :: "nat \<Rightarrow> nat option" where
  "hex_val c =
     (if 0x30 \<le> c \<and> c \<le> 0x39 then Some (c - 0x30)
      else if 0x61 \<le> c \<and> c \<le> 0x66 then Some (c - 0x61 + 10)
      else if 0x41 \<le> c \<and> c \<le> 0x46 then Some (c - 0x41 + 10)
      else None)"

text \<open>\<open>_decode_uXXXX\<close>: the value of the four hexadecimal digits after \<open>\\u\<close>.\<close>

fun decode_uXXXX :: "pystr \<Rightarrow> nat option" where
  "decode_uXXXX (a # b # c # d # rest) =
     (case (hex_val a, hex_val b, hex_val c, hex_val d) of
        (Some x, Some y, Some z, Some w) \<Rightarrow> Some (((x * 16 + y) * 16 + z) * 16 + w)
      | _ \<Rightarrow> None)"
| "decode_uXXXX _ = None"

text \<open>The \<open>BACKSLASH\<close> table.\<close>

definition backslash :: "nat \<Rightarrow> nat option" where
  "backslash esc =
     (if esc = 0x22 then Some 0x22
      else if esc = 0x5C then Some 0x5C
      else if esc = 0x2F then Some 0x2F
      else if esc = 0x62 then Some 0x08
      else if esc = 0x66 then Some 0x0C
      else if esc = 0x6E then Some 0x0A
      else if esc = 0x72 then Some 0x0D
      else if esc = 0x74 then Some 0x09
      else None)"

definition cons_char :: "nat \<Rightarrow> py_error + (pystr \<times> pystr) \<Rightarrow> py_error + (pystr \<times> pystr)" where
  "cons_char ch r = (case r of Inl e \<Rightarrow> Inl e | Inr (str, rest) \<Rightarrow> Inr (ch # str, rest))"

text \<open>
  \<open>scanstring\<close> in strict mode, from the character after the opening quote: the
  string read and the text after its closing quote.
\<close>

fun scanstring :: "pystr \<Rightarrow> py_error + (pystr \<times> pystr)" where
  "scanstring [] = Inl JSONDecodeError"
| "scanstring (c # cs) =
     (if c = 0x22 then Inr ([], cs)
      else if c = 0x5C then
        (case cs of
           [] \<Rightarrow> Inl JSONDecodeError
         | esc # rest \<Rightarrow>
             if esc = 0x75 then
               (case decode_uXXXX rest of
                  None \<Rightarrow> Inl JSONDecodeError
                | Some uni \<Rightarrow>
                    if 0xD800 \<le> uni \<and> uni \<le> 0xDBFF \<and> take 2 (drop 4 rest) = [0x5C, 0x75] then
                      (case decode_uXXXX (drop 6 rest) of
                         None \<Rightarrow> Inl JSONDecodeError
                       | Some uni2 \<Rightarrow>
                           if 0xDC00 \<le> uni2 \<and> uni2 \<le> 0xDFFF then
                             cons_char (0x10000 + ((uni - 0xD800) * 0x400 + (uni2 - 0xDC00)))
                               (scanstring (drop 10 rest))
                           else cons_char uni (scanstring (drop 4 rest)))
                    else cons_char uni (scanstring (drop 4 rest)))
             else
               (case backslash esc of
                  None \<Rightarrow> Inl JSONDecodeError
                | Some ch \<Rightarrow> cons_char ch (scanstring rest)))
      else if c < 0x20 then Inl JSONDecodeError
      else cons_char c (scanstring cs))"

text \<open>The value of the digits matched by \<open>NUMBER_RE\<close>'s integer part.\<close>

definition digits_val :: "pystr \<Rightarrow> nat" where
  "digits_val ds = foldl (\<lambda>a d. 10 * a + (d - 0x30)) 0 ds"

definition has_frac :: "pystr \<Rightarrow> bool" where
  "has_frac s = (case s of c # d # _ \<Rightarrow> c = 0x2E \<and> is_digit d | _ \<Rightarrow> False)"

definition has_exp :: "pystr \<Rightarrow> bool" where
  "has_exp s =
     (case s of
        c # d # ds \<Rightarrow>
          (c = 0x65 \<or> c = 0x45) \<and>
          (is_digit d \<or> ((d = 0x2B \<or> d = 0x2D) \<and> (case ds of x # _ \<Rightarrow> is_digit x | [] \<Rightarrow> False)))
      | _ \<Rightarrow> False)"

text \<open>
  \<open>match_number\<close>: \<open>None\<close> when \<open>NUMBER_RE\<close> does not match. With a fraction or an
  exponent the number is a \<open>float\<close>, which the model has no value for.
\<close>

definition match_number :: "pystr \<Rightarrow> (py_error + (json \<times> pystr)) option" where
  "match_number s =
     (let neg = (case s of c # _ \<Rightarrow> c = 0x2D | [] \<Rightarrow> False);
          s1 = (if neg then tl s else s)
      in case s1 of
           [] \<Rightarrow> None
         | d # ds \<Rightarrow>
             if \<not> is_digit d then None
             else
               (let digits = (if d = 0x30 then [d] else d # takeWhile is_digit ds);
                    rest = (if d = 0x30 then ds else dropWhile is_digit ds)
                in if has_frac rest \<or> has_exp rest then Some (Inl Unmodelled)
                   else Some (Inr (JInt (if neg then - int (digits_val digits)
                                         else int (digits_val digits)), rest))))"

text \<open>\<open>dict(pairs)\<close>: a repeated key keeps its first place and its last value.\<close>

definition dict_of_pairs :: "(pystr \<times> json) list \<Rightarrow> (pystr \<times> json) list" where
  "dict_of_pairs pairs = foldl (\<lambda>d kv. setitem d (fst kv) (snd kv)) [] pairs"

text \<open>
  \<open>scan_once\<close>, the loop of \<open>JSONArray\<close> (from the start of an item) and the loop of
  \<open>JSONObject\<close> (from the character after the opening quote of a key). The first
  argument is fuel: every call uses one unit.
\<close>

fun scan_once :: "nat \<Rightarrow> pystr \<Rightarrow> py_error + (json \<times> pystr)"
  and parse_array :: "nat \<Rightarrow> pystr \<Rightarrow> json list \<Rightarrow> py_error + (json \<times> pystr)"
  and parse_object :: "nat \<Rightarrow> pystr \<Rightarrow> (pystr \<times> json) list \<Rightarrow> py_error + (json \<times> pystr)"
where
  "scan_once 0 s = Inl OutOfFuel"
| "scan_once (Suc fuel) s =
     (case s of
        [] \<Rightarrow> Inl JSONDecodeError
      | c # cs \<Rightarrow>
          if c = 0x22 then
            (case scanstring cs of Inl e \<Rightarrow> Inl e | Inr (str, rest) \<Rightarrow> Inr (JStr str, rest))
          else if c = 0x7B then
            (case skip_ws cs of
               [] \<Rightarrow> Inl JSONDecodeError
             | d # ds \<Rightarrow>
                 if d = 0x7D then Inr (JDict [], ds)
                 else if d = 0x22 then parse_object fuel ds []
                 else Inl JSONDecodeError)
          else if c = 0x5B then
            (case skip_ws cs of
               [] \<Rightarrow> Inl JSONDecodeError
             | d # ds \<Rightarrow>
                 if d = 0x5D then Inr (JList [], ds)
                 else parse_array fuel (d # ds) [])
          else if c = 0x6E \<and> take 4 s = S ''null'' then Inr (JNull, drop 4 s)
          else if c = 0x74 \<and> take 4 s = S ''true'' then Inr (JBool True, drop 4 s)
          else if c = 0x66 \<and> take 5 s = S ''false'' then Inr (JBool False, drop 5 s)
          else
            (case match_number s of
               Some r \<Rightarrow> r
             | None \<Rightarrow>
                 if c = 0x4E \<and> take 3 s = S ''NaN'' then Inl Unmodelled
                 else if c = 0x49 \<and> take 8 s = S ''Infinity'' then Inl Unmodelled
                 else if c = 0x2D \<and> take 9 s = S ''-Infinity'' then Inl Unmodelled
                 else Inl JSONDecodeError))"
| "parse_array 0 s values = Inl OutOfFuel"
| "parse_array (Suc fuel) s values =
     (case scan_once fuel s of
        Inl e \<Rightarrow> Inl e
      | Inr (v, s1) \<Rightarrow>
          (case skip_ws s1 of
             [] \<Rightarrow> Inl JSONDecodeError
           | d # s2 \<Rightarrow>
               if d = 0x5D then Inr (JList (values @ [v]), s2)
               else if d = 0x2C then parse_array fuel (skip_ws s2) (values @ [v])
               else Inl JSONDecodeError))"
| "parse_object 0 s pairs = Inl OutOfFuel"
| "parse_object (Suc fuel) s pairs =
     (case scanstring s of
        Inl e \<Rightarrow> Inl e
      | Inr (key, s1) \<Rightarrow>
          (case skip_ws s1 of
             [] \<Rightarrow> Inl JSONDecodeError
           | c # s2 \<Rightarrow>
               if c \<noteq> 0x3A then Inl JSONDecodeError
               else
                 (case scan_once fuel (skip_ws s2) of
                    Inl e \<Rightarrow> Inl e
                  | Inr (v, s3) \<Rightarrow>
                      (case skip_ws s3 of
                         [] \<Rightarrow> Inl JSONDecodeError
                       | d # s4 \<Rightarrow>
                           if d = 0x7D then Inr (JDict (dict_of_pairs (pairs @ [(key, v)])), s4)
                           else if d = 0x2C then
                             (case skip_ws s4 of
                                [] \<Rightarrow> Inl JSONDecodeError
                              | q # s5 \<Rightarrow>
                                  if q = 0x22 then parse_object fuel s5 (pairs @ [(key, v)])
                                  else Inl JSONDecodeError)
                           else Inl JSONDecodeError))))"

text \<open>
  \<open>json.loads(s)\<close>: a text that starts with the byte order mark is refused, and so is
  one with anything but white space after the value. The fuel is enough for a text
  of this length (\<open>loads_fuel_enough\<close> below).
\<close>

definition loads :: "pystr \<Rightarrow> py_error + json" where
  "loads s =
     (if take 1 s = [0xFEFF] then Inl JSONDecodeError
      else (case scan_once (2 * length s + 2) (skip_ws s) of
              Inl e \<Rightarrow> Inl e
            | Inr (obj, rest) \<Rightarrow> if skip_ws rest = [] then Inr obj else Inl JSONDecodeError))"

section \<open>The dispatcher and the result envelope\<close>

text \<open>
  The types of the hosting framework, as far as this code reads them:
  \<open>dispatch(name, HttpRequest(method, path, body))\<close> answers with an object that has
  \<open>success\<close>, \<open>response\<close> (with a \<open>body\<close>) and \<open>error\<close> (with a \<open>message\<close>). Python's
  \<open>None\<close> body is \<open>JNull\<close>; \<open>response\<close> and \<open>error\<close> may be \<open>None\<close>.
\<close>

datatype http_method = GET | POST | PUT

record http_response =
  response_body :: json

record dispatch_error =
  message :: pystr

record dispatch_response =
  success :: bool
  response :: "http_response option"
  error :: "dispatch_error option"

record http_request =
  request_method :: http_method
  request_path :: pystr
  request_body :: json

type_synonym dispatcher = "pystr \<Rightarrow> http_request \<Rightarrow> dispatch_response"

record text_content =
  type :: pystr
  text_field :: pystr

type_synonym sheets_result = "text_content list"

text \<open>
  \<open>_req\<close>. The dispatcher of the context is a parameter; \<open>error'\<close> is the source's
  \<open>error\<close>. Reading \<open>resp.response.body\<close> when \<open>resp.response\<close> is \<open>None\<close> raises
  \<open>AttributeError\<close>.
\<close>

definition req :: "dispatcher \<Rightarrow> http_method \<Rightarrow> pystr \<Rightarrow> json \<Rightarrow> py_error + sheets_result" where
  "req dispatch method path body =
     (let resp = dispatch (S ''google-sheets-mcp'')
                   \<lparr>request_method = method, request_path = path, request_body = body\<rparr>
      in if success resp then
           (case response resp of
              None \<Rightarrow> Inl AttributeError
            | Some r \<Rightarrow>
                (let data = (if truthy (response_body r) then response_body r else JDict [])
                 in Inr [\<lparr>type = S ''text'', text_field = dumps data\<rparr>]))
         else
           (let error' = (case error resp of
                            Some e \<Rightarrow> message e
                          | None \<Rightarrow> S ''Request failed'')
            in Inr [\<lparr>type = S ''text'',
                     text_field = dumps (JDict [(S ''error'', JStr error')])\<rparr>]))"

section \<open>The tools\<close>

text \<open>
  One function for each tool. A parameter with a default value is an \<open>option\<close>,
  \<open>None\<close> for an argument the caller leaves out; \<open>values\<close>, \<open>data\<close> and \<open>requests\<close> are
  the caller's JSON values as they come; \<open>range'\<close> is the source's \<open>range\<close>. A \<open>for\<close> loop that appends is a \<open>foldl\<close>.
\<close>

definition sheets_get_spreadsheet ::
  "dispatcher \<Rightarrow> pystr \<Rightarrow> bool option \<Rightarrow> pystr option \<Rightarrow> pystr option \<Rightarrow> py_error + sheets_result"
where
  "sheets_get_spreadsheet dispatch spreadsheet_id include_grid_data_arg ranges_arg fields_arg =
     (let include_grid_data = with_default False include_grid_data_arg;
          ranges = with_default [] ranges_arg;
          fields = with_default [] fields_arg;
          params = [S ''includeGridData='' @ lower (str_bool include_grid_data)];
          params = (if ranges \<noteq> []
                    then foldl (\<lambda>ps r. ps @ [S ''ranges='' @ strip r]) params (split 0x2C ranges)
                    else params);
          params = (if fields \<noteq> [] then params @ [S ''fields='' @ fields] else params);
          query_string = join (S ''&'') params
      in req dispatch GET (S ''/v4/spreadsheets/'' @ spreadsheet_id @ S ''?'' @ query_string) JNull)"

definition sheets_list_sheets :: "dispatcher \<Rightarrow> pystr \<Rightarrow> py_error + sheets_result" where
  "sheets_list_sheets dispatch spreadsheet_id =
     (let fields = S ''spreadsheetId,properties(title),sheets(properties(sheetId,title,index,gridProperties))''
      in req dispatch GET (S ''/v4/spreadsheets/'' @ spreadsheet_id @ S ''?fields='' @ fields) JNull)"


definition sheets_batch_get_values ::
  "dispatcher \<Rightarrow> pystr \<Rightarrow> pystr \<Rightarrow> pystr option \<Rightarrow> pystr option \<Rightarrow> pystr option
     \<Rightarrow> py_error + sheets_result"
where
  "sheets_batch_get_values dispatch spreadsheet_id ranges major_dimension_arg
       value_render_option_arg date_time_render_option_arg =
     (let major_dimension = with_default (S ''ROWS'') major_dimension_arg;
          value_render_option = with_default (S ''FORMATTED_VALUE'') value_render_option_arg;
          date_time_render_option = with_default (S ''SERIAL_NUMBER'') date_time_render_option_arg;
          params = [S ''majorDimension='' @ major_dimension,
                    S ''valueRenderOption='' @ value_render_option,
                    S ''dateTimeRenderOption='' @ date_time_render_option];
          params = foldl (\<lambda>ps r. ps @ [S ''ranges='' @ strip r]) params (split 0x2C ranges);
          query_string = join (S ''&'') params
      in req dispatch GET
           (S ''/v4/spreadsheets/'' @ spreadsheet_id @ S ''/values:batchGet?'' @ query_string)
           JNull)"

definition sheets_update_values ::
  "dispatcher \<Rightarrow> pystr \<Rightarrow> pystr \<Rightarrow> json \<Rightarrow> pystr option \<Rightarrow> bool option \<Rightarrow> py_error + sheets_result"
where
  "sheets_update_values dispatch spreadsheet_id range' values value_input_option_arg
       include_values_in_response_arg =
     (let value_input_option = with_default (S ''USER_ENTERED'') value_input_option_arg;
          include_values_in_response = with_default False include_values_in_response_arg
      in case encode_range range' of
           Inl e \<Rightarrow> Inl e
         | Inr encoded_range \<Rightarrow>
             (let params = [S ''valueInputOption='' @ value_input_option,
                            S ''includeValuesInResponse=''
                              @ lower (str_bool include_values_in_response)];
                  query_string = join (S ''&'') params;
                  body = JDict [(S ''values'', values)]
              in req dispatch PUT
                   (S ''/v4/spreadsheets/'' @ spreadsheet_id @ S ''/values/'' @ encoded_range
                      @ S ''?'' @ query_string)
                   body))"

definition sheets_batch_update_values ::
  "dispatcher \<Rightarrow> pystr \<Rightarrow> json \<Rightarrow> pystr option \<Rightarrow> bool option \<Rightarrow> py_error + sheets_result"
where
  "sheets_batch_update_values dispatch spreadsheet_id data value_input_option_arg
       include_values_in_response_arg =
     (let value_input_option = with_default (S ''USER_ENTERED'') value_input_option_arg;
          include_values_in_response = with_default False include_values_in_response_arg;
          body = JDict [(S ''valueInputOption'', JStr value_input_option),
                        (S ''includeValuesInResponse'', JBool include_values_in_response),
                        (S ''data'', data)]
      in req dispatch POST
           (S ''/v4/spreadsheets/'' @ spreadsheet_id @ S ''/values:batchUpdate'')
           body)"

definition sheets_append_values ::
  "dispatcher \<Rightarrow> pystr \<Rightarrow> pystr \<Rightarrow> json \<Rightarrow> pystr option \<Rightarrow> pystr option \<Rightarrow> bool option
     \<Rightarrow> py_error + sheets_result"
where
  "sheets_append_values dispatch spreadsheet_id range' values value_input_option_arg
       insert_data_option_arg include_values_in_response_arg =
     (let value_input_option = with_default (S ''USER_ENTERED'') value_input_option_arg;
          insert_data_option = with_default (S ''INSERT_ROWS'') insert_data_option_arg;
          include_values_in_response = with_default False include_values_in_response_arg
      in case encode_range range' of
           Inl e \<Rightarrow> Inl e
         | Inr encoded_range \<Rightarrow>
             (let params = [S ''valueInputOption='' @ value_input_option,
                            S ''insertDataOption='' @ insert_data_option,
                            S ''includeValuesInResponse=''
                              @ lower (str_bool include_values_in_response)];
                  query_string = join (S ''&'') params;
                  body = JDict [(S ''values'', values)]
              in req dispatch POST
                   (S ''/v4/spreadsheets/'' @ spreadsheet_id @ S ''/values/'' @ encoded_range
                      @ S '':append?'' @ query_string)
                   body))"

definition sheets_clear_values ::
  "dispatcher \<Rightarrow> pystr \<Rightarrow> pystr \<Rightarrow> py_error + sheets_result"
where
  "sheets_clear_values dispatch spreadsheet_id range' =
     (case encode_range range' of
        Inl e \<Rightarrow> Inl e
      | Inr encoded_range \<Rightarrow>
          req dispatch POST
            (S ''/v4/spreadsheets/'' @ spreadsheet_id @ S ''/values/'' @ encoded_range
               @ S '':clear'')
            (JDict []))"

definition sheets_batch_update ::
  "dispatcher \<Rightarrow> pystr \<Rightarrow> json \<Rightarrow> bool option \<Rightarrow> py_error + sheets_result"
where
  "sheets_batch_update dispatch spreadsheet_id requests include_spreadsheet_in_response_arg =
     (let include_spreadsheet_in_response = with_default False include_spreadsheet_in_response_arg;
          body = JDict [(S ''requests'', requests),
                        (S ''includeSpreadsheetInResponse'',
                           JBool include_spreadsheet_in_response)]
      in req dispatch POST (S ''/v4/spreadsheets/'' @ spreadsheet_id @ S '':batchUpdate'') body)"

definition sheets_create :: "dispatcher \<Rightarrow> pystr \<Rightarrow> pystr option \<Rightarrow> py_error + sheets_result" where
  "sheets_create dispatch title sheet_titles_arg =
     (let sheet_titles = with_default [] sheet_titles_arg;
          body = [(S ''properties'', JDict [(S ''title'', JStr title)])];
          body = (if sheet_titles \<noteq> []
                  then setitem body (S ''sheets'')
                         (JList (map (\<lambda>t. JDict [(S ''properties'',
                                                    JDict [(S ''title'', JStr (strip t))])])
                                   (split 0x2C sheet_titles)))
                  else body)
      in req dispatch POST (S ''/v4/spreadsheets'') (JDict body))"

section \<open>Notions of the specification\<close>

text \<open>
  The unreserved characters of a URL (letters, digits, \<open>-\<close>, \<open>.\<close>, \<open>_\<close>, \<open>~\<close>), the
  allow-listed characters of the range notation (\<open>! : $ ' ( ) , - . _ ~\<close>), and the
  characters the encoder is to keep: both sets together.
\<close>

definition unreserved :: "nat \<Rightarrow> bool" where
  "unreserved c \<longleftrightarrow>
     (0x41 \<le> c \<and> c \<le> 0x5A) \<or> (0x61 \<le> c \<and> c \<le> 0x7A) \<or> (0x30 \<le> c \<and> c \<le> 0x39)
     \<or> c = 0x2D \<or> c = 0x2E \<or> c = 0x5F \<or> c = 0x7E"

definition allow_listed :: "nat \<Rightarrow> bool" where
  "allow_listed c \<longleftrightarrow>
     c \<in> set [0x21, 0x3A, 0x24, 0x27, 0x28, 0x29, 0x2C, 0x2D, 0x2E, 0x5F, 0x7E]"

definition kept :: "nat \<Rightarrow> bool" where
  "kept c \<longleftrightarrow> unreserved c \<or> allow_listed c"

text \<open>A code point that UTF-8 can encode: below \<open>0x110000\<close> and no surrogate.\<close>

definition encodable :: "nat \<Rightarrow> bool" where
  "encodable c \<longleftrightarrow> c < 0x110000 \<and> \<not> is_surrogate c"

text \<open>
  A text in which a percent sign only ever starts an escape \<open>%XX\<close> of two upper-case
  hexadecimal digits.
\<close>

definition is_hex_upper :: "nat \<Rightarrow> bool" where
  "is_hex_upper h \<longleftrightarrow> (0x30 \<le> h \<and> h \<le> 0x39) \<or> (0x41 \<le> h \<and> h \<le> 0x46)"

fun well_escaped :: "pystr \<Rightarrow> bool" where
  "well_escaped [] = True"
| "well_escaped (c # cs) =
     (if c = 0x25 then
        (case cs of
           h1 # h2 # rest \<Rightarrow> is_hex_upper h1 \<and> is_hex_upper h2 \<and> well_escaped rest
         | _ \<Rightarrow> False)
      else well_escaped cs)"

text \<open>The bytes \<open>quote\<close> leaves as they are when called by the range encoder.\<close>

definition range_safe :: "nat list" where
  "range_safe = ALWAYS_SAFE @ filter (\<lambda>c. c < 128) (S ''!:$'(),-._~'')"

text \<open>A simulated dispatcher: it answers every request with the same outcome.\<close>

definition simulated :: "dispatch_response \<Rightarrow> dispatcher" where
  "simulated outcome name request = outcome"

section \<open>The range encoder: what it keeps, what it escapes, when it raises\<close>

lemma kept_table: "\<forall>c \<in> set [0..<128]. (c \<in> set range_safe) = kept c"
  by code_simp

lemma range_safe_lt: "\<forall>c \<in> set range_safe. c < 128"
  by code_simp

lemma kept_lt: "kept c \<Longrightarrow> c < 128"
  by (auto simp: kept_def unreserved_def allow_listed_def)

lemma range_safe_iff: "c \<in> set range_safe \<longleftrightarrow> kept c"
proof (cases "c < 128")
  case True
  then have "c \<in> set [0..<128]" by simp
  with kept_table show ?thesis by blast
next
  case False
  with range_safe_lt kept_lt show ?thesis by force
qed

lemma str_encode_ascii: "\<forall>c \<in> set s. c < 128 \<Longrightarrow> str_encode s = Inr s"
  by (induction s) (auto simp: utf8_char_def)

lemma bytes_rstrip_Nil: "bytes_rstrip bs cs = [] \<longleftrightarrow> (\<forall>b \<in> set bs. b \<in> set cs)"
  by (auto simp: bytes_rstrip_def dropWhile_eq_Nil_conv)

lemma encode_range_unfold:
  "encode_range s =
     (if s = [] then Inr s
      else (case str_encode s of
              Inl e \<Rightarrow> Inl e
            | Inr bs \<Rightarrow> Inr (if bs = [] then []
                 else if \<forall>b \<in> set bs. kept b then bs
                 else concat (map (quoter (filter (\<lambda>c. c < 128) (S ''!:$'(),-._~''))) bs))))"
  using range_safe_iff
  by (simp add: encode_range_def quote_def quote_from_bytes_def bytes_rstrip_Nil Let_def
      range_safe_def split: sum.splits)

lemma utf8_char_byte: "utf8_char c = Inr bs \<Longrightarrow> b \<in> set bs \<Longrightarrow> b < 256"
  by (auto simp: utf8_char_def split: if_splits)

lemma utf8_char_shape:
  "utf8_char c = Inr bs \<Longrightarrow> bs \<noteq> [] \<and> (if c < 128 then bs = [c] else \<forall>b \<in> set bs. 128 \<le> b)"
  by (auto simp: utf8_char_def split: if_splits)

lemma str_encode_byte: "str_encode s = Inr bs \<Longrightarrow> b \<in> set bs \<Longrightarrow> b < 256"
proof (induction s arbitrary: bs)
  case Nil
  then show ?case by simp
next
  case (Cons c cs)
  then show ?case
    by (auto split: sum.splits dest: utf8_char_byte)
qed

lemma str_encode_length: "str_encode s = Inr bs \<Longrightarrow> length s \<le> length bs"
proof (induction s arbitrary: bs)
  case Nil
  then show ?case by simp
next
  case (Cons c cs)
  then obtain b1 rest where b1: "utf8_char c = Inr b1" and rest: "str_encode cs = Inr rest"
    and bs: "bs = b1 @ rest"
    by (auto split: sum.splits)
  from utf8_char_shape [OF b1] have "1 \<le> length b1" by (cases b1) auto
  with Cons.IH [OF rest] bs show ?case by simp
qed

lemma str_encode_unkept:
  "str_encode s = Inr bs \<Longrightarrow> c \<in> set s \<Longrightarrow> \<not> kept c \<Longrightarrow> \<exists>b \<in> set bs. \<not> kept b"
proof (induction s arbitrary: bs)
  case Nil
  then show ?case by simp
next
  case (Cons a as)
  then obtain b1 rest where b1: "utf8_char a = Inr b1" and rest: "str_encode as = Inr rest"
    and bs: "bs = b1 @ rest"
    by (auto split: sum.splits)
  show ?case
  proof (cases "c = a")
    case True
    from utf8_char_shape [OF b1] obtain b where b: "b \<in> set b1" and "if a < 128 then b = a else 128 \<le> b"
      by (cases b1) (auto split: if_splits)
    with True Cons.prems(3) kept_lt have "\<not> kept b" by (cases "a < 128") force+
    with b bs show ?thesis by auto
  next
    case False
    with Cons.prems have "c \<in> set as" by simp
    from Cons.IH [OF rest this Cons.prems(3)] bs show ?thesis by auto
  qed
qed

lemma quoter_range:
  "quoter (filter (\<lambda>c. c < 128) (S ''!:$'(),-._~'')) b = (if kept b then [b] else percent_02X b)"
  using range_safe_iff [of b] by (simp add: quoter_def range_safe_def)

lemma hex_upper_kept: "d < 16 \<Longrightarrow> kept (hex_upper d)"
  by (auto simp: hex_upper_def kept_def unreserved_def)

lemma quoter_alphabet:
  assumes "b < 256" and "x \<in> set (quoter (filter (\<lambda>c. c < 128) (S ''!:$'(),-._~'')) b)"
  shows "kept x \<or> x = 0x25"
proof (cases "kept b")
  case True
  with assms show ?thesis by (simp add: quoter_range)
next
  case False
  from assms(1) have "b div 16 < 16" and "b mod 16 < 16" by simp_all
  then have "kept (hex_upper (b div 16))" and "kept (hex_upper (b mod 16))"
    by (simp_all add: hex_upper_kept)
  with False assms(2) show ?thesis
    by (auto simp: quoter_range percent_02X_def)
qed

lemma quoter_length:
  "length (quoter (filter (\<lambda>c. c < 128) (S ''!:$'(),-._~'')) b) = (if kept b then 1 else 3)"
  by (simp add: quoter_range percent_02X_def)

lemma concat_quoter_length:
  "length bs \<le> length (concat (map (quoter (filter (\<lambda>c. c < 128) (S ''!:$'(),-._~''))) bs))"
  by (induction bs) (simp_all add: quoter_length)

lemma concat_quoter_longer:
  "\<exists>b \<in> set bs. \<not> kept b \<Longrightarrow>
   length bs < length (concat (map (quoter (filter (\<lambda>c. c < 128) (S ''!:$'(),-._~''))) bs))"
proof (induction bs)
  case Nil
  then show ?case by simp
next
  case (Cons b bs)
  show ?case
  proof (cases "kept b")
    case True
    with Cons show ?thesis by (simp add: quoter_length)
  next
    case False
    with concat_quoter_length [of bs] show ?thesis by (simp add: quoter_length)
  qed
qed

lemma encode_range_alphabet:
  assumes "encode_range s = Inr t" and "x \<in> set t"
  shows "kept x \<or> x = 0x25"
proof (cases "s = []")
  case True
  with assms show ?thesis by (simp add: encode_range_unfold)
next
  case False
  with assms(1) obtain bs where bs: "str_encode s = Inr bs"
    and t: "t = (if bs = [] then [] else if \<forall>b \<in> set bs. kept b then bs
                 else concat (map (quoter (filter (\<lambda>c. c < 128) (S ''!:$'(),-._~''))) bs))"
    by (auto simp: encode_range_unfold split: sum.splits)
  show ?thesis
  proof (cases "\<forall>b \<in> set bs. kept b")
    case True
    with t assms(2) show ?thesis by (auto split: if_splits)
  next
    case unk: False
    with t assms(2) obtain b where "b \<in> set bs"
      and "x \<in> set (quoter (filter (\<lambda>c. c < 128) (S ''!:$'(),-._~'')) b)"
      by (auto split: if_splits)
    with str_encode_byte [OF bs] quoter_alphabet show ?thesis by blast
  qed
qed

lemma encode_range_longer:
  assumes "encode_range s = Inr t" and "c \<in> set s" and "\<not> kept c"
  shows "length s < length t"
proof -
  from assms(2) have "s \<noteq> []" by auto
  with assms(1) obtain bs where bs: "str_encode s = Inr bs"
    and t: "t = (if bs = [] then [] else if \<forall>b \<in> set bs. kept b then bs
                 else concat (map (quoter (filter (\<lambda>c. c < 128) (S ''!:$'(),-._~''))) bs))"
    by (auto simp: encode_range_unfold split: sum.splits)
  from str_encode_unkept [OF bs assms(2,3)] have unk: "\<exists>b \<in> set bs. \<not> kept b" .
  then have "bs \<noteq> []" by auto
  with unk t have "t = concat (map (quoter (filter (\<lambda>c. c < 128) (S ''!:$'(),-._~''))) bs)"
    by auto
  with concat_quoter_longer [OF unk] str_encode_length [OF bs] show ?thesis by simp
qed

lemma str_encode_total:
  "str_encode s = Inl e \<longleftrightarrow> e = UnicodeEncodeError \<and> (\<exists>c \<in> set s. is_surrogate c \<or> 0x110000 \<le> c)"
proof (induction s)
  case Nil
  then show ?case by simp
next
  case (Cons c cs)
  have u: "utf8_char c = Inl e' \<longleftrightarrow> e' = UnicodeEncodeError \<and> (is_surrogate c \<or> 0x110000 \<le> c)" for e'
    by (auto simp: utf8_char_def is_surrogate_def)
  show ?case
  proof (cases "utf8_char c")
    case (Inl a)
    with u [of a] show ?thesis by auto
  next
    case (Inr b)
    with u Cons.IH show ?thesis by (auto split: sum.splits)
  qed
qed

lemma well_escaped_no_percent: "\<forall>x \<in> set t. x \<noteq> 0x25 \<Longrightarrow> well_escaped t"
  by (induction t) auto

lemma hex_upper_is_hex: "d < 16 \<Longrightarrow> is_hex_upper (hex_upper d)"
  by (auto simp: hex_upper_def is_hex_upper_def)

lemma not_kept_percent: "\<not> kept 0x25"
  by (simp add: kept_def unreserved_def allow_listed_def)

lemma well_escaped_quoter:
  assumes "b < 256" and "well_escaped rest"
  shows "well_escaped (quoter (filter (\<lambda>c. c < 128) (S ''!:$'(),-._~'')) b @ rest)"
proof (cases "kept b")
  case True
  with not_kept_percent have "b \<noteq> 0x25" by auto
  with True assms(2) show ?thesis by (simp add: quoter_range)
next
  case False
  from assms(1) have "b div 16 < 16" and "b mod 16 < 16" by simp_all
  then have "is_hex_upper (hex_upper (b div 16))" and "is_hex_upper (hex_upper (b mod 16))"
    by (simp_all add: hex_upper_is_hex)
  with False assms(2) show ?thesis by (simp add: quoter_range percent_02X_def)
qed

lemma well_escaped_concat_quoter:
  "\<forall>b \<in> set bs. b < 256 \<Longrightarrow>
   well_escaped (concat (map (quoter (filter (\<lambda>c. c < 128) (S ''!:$'(),-._~''))) bs))"
  by (induction bs) (simp_all add: well_escaped_quoter)

lemma encode_range_well_escaped:
  assumes "encode_range s = Inr t"
  shows "well_escaped t"
proof (cases "s = []")
  case True
  with assms show ?thesis by (simp add: encode_range_unfold)
next
  case False
  with assms(1) obtain bs where bs: "str_encode s = Inr bs"
    and t: "t = (if bs = [] then [] else if \<forall>b \<in> set bs. kept b then bs
                 else concat (map (quoter (filter (\<lambda>c. c < 128) (S ''!:$'(),-._~''))) bs))"
    by (auto simp: encode_range_unfold split: sum.splits)
  show ?thesis
  proof (cases "\<forall>b \<in> set bs. kept b")
    case True
    with not_kept_percent have "\<forall>x \<in> set bs. x \<noteq> 0x25" by auto
    then have "well_escaped bs" by (rule well_escaped_no_percent)
    with True t show ?thesis by simp
  next
    case False
    then have "bs \<noteq> []" by auto
    with False t
    have "t = concat (map (quoter (filter (\<lambda>c. c < 128) (S ''!:$'(),-._~''))) bs)"
      by auto
    moreover from str_encode_byte [OF bs] have "\<forall>b \<in> set bs. b < 256" by blast
    ultimately show ?thesis by (simp only: well_escaped_concat_quoter)
  qed
qed

lemma encode_range_kept:
  assumes "\<forall>c \<in> set s. kept c"
  shows "encode_range s = Inr s"
proof -
  from assms kept_lt have "\<forall>c \<in> set s. c < 128" by blast
  then have "str_encode s = Inr s" by (rule str_encode_ascii)
  with assms show ?thesis by (simp add: encode_range_unfold)
qed

lemma encode_range_returns:
  "(\<exists>t. encode_range s = Inr t) \<longleftrightarrow> (\<forall>c \<in> set s. encodable c)"
proof (cases "s = []")
  case True
  then show ?thesis by (simp add: encode_range_unfold)
next
  case False
  have "(\<exists>t. encode_range s = Inr t) \<longleftrightarrow> (\<forall>e. str_encode s \<noteq> Inl e)"
    using False by (auto simp: encode_range_unfold split: sum.splits)
  also have "\<dots> \<longleftrightarrow> (\<forall>c \<in> set s. encodable c)"
    by (auto simp: str_encode_total encodable_def)
  finally show ?thesis .
qed

lemma encode_range_raises:
  "encode_range s = Inl e \<Longrightarrow> e = UnicodeEncodeError"
  by (auto simp: encode_range_unfold str_encode_total split: if_splits sum.splits)

text \<open>
  Claim C1, as amended. A string of kept characters only (the allow-listed and the
  unreserved ones) comes back unchanged. The encoder returns an output for every string
  whose code points UTF-8 can encode, and raises \<open>UnicodeEncodeError\<close> for every
  other string (one with a lone surrogate). Whenever it returns \<open>t\<close> for a string
  \<open>s\<close> that holds a character \<open>c\<close> outside the kept ones, \<open>t\<close> differs from \<open>s\<close>,
  every character of \<open>t\<close> is a kept one or a percent sign, every percent sign of \<open>t\<close>
  starts an escape \<open>%XX\<close>, and \<open>c\<close> does not occur in \<open>t\<close> unless \<open>c\<close> is the percent
  sign itself.
\<close>

theorem encode_range_amended:
  "((\<forall>c \<in> set s. kept c) \<longrightarrow> encode_range s = Inr s) \<and>
   ((\<forall>c \<in> set s. encodable c) \<longrightarrow> (\<exists>t. encode_range s = Inr t)) \<and>
   ((\<exists>c \<in> set s. \<not> encodable c) \<longrightarrow> encode_range s = Inl UnicodeEncodeError) \<and>
   (encode_range s = Inr t \<and> c \<in> set s \<and> \<not> kept c \<longrightarrow>
      t \<noteq> s \<and> (\<forall>x \<in> set t. kept x \<or> x = 0x25) \<and> well_escaped t \<and> (c \<noteq> 0x25 \<longrightarrow> c \<notin> set t))"
proof (intro conjI impI)
  assume "\<forall>c \<in> set s. kept c"
  then show "encode_range s = Inr s" by (rule encode_range_kept)
next
  assume "\<forall>c \<in> set s. encodable c"
  then show "\<exists>t. encode_range s = Inr t" by (simp add: encode_range_returns)
next
  assume "\<exists>c \<in> set s. \<not> encodable c"
  with encode_range_returns [of s] have "\<nexists>t. encode_range s = Inr t" by blast
  then obtain e where "encode_range s = Inl e" by (cases "encode_range s") auto
  with encode_range_raises show "encode_range s = Inl UnicodeEncodeError" by blast
next
  assume a: "encode_range s = Inr t \<and> c \<in> set s \<and> \<not> kept c"
  with encode_range_longer show "t \<noteq> s" by fastforce
  from a encode_range_alphabet show "\<forall>x \<in> set t. kept x \<or> x = 0x25" by blast
  from a have "encode_range s = Inr t" by simp
  then show "well_escaped t" by (rule encode_range_well_escaped)
  assume "c \<noteq> 0x25"
  with a encode_range_alphabet [of s t c] show "c \<notin> set t" by blast
qed

lemma encode_range_surrogate: "encode_range [0xD800] = Inl UnicodeEncodeError"
  by (simp add: encode_range_def quote_def utf8_char_def is_surrogate_def)

lemma encode_range_percent:
  "\<not> kept 0x25 \<and> encode_range (S ''%'') = Inr (S ''%25'') \<and> 0x25 \<in> set (S ''%25'')"
  by code_simp

text \<open>
  Claim C1 as stated fails twice: the encoder raises on the string of the one code point
  \<open>U+D800\<close>, so it is not total; and the percent sign, a character outside the kept
  ones, occurs in the output for the string \<open>%\<close>.
\<close>

theorem encode_range_counterexample:
  "encode_range [0xD800] = Inl UnicodeEncodeError \<and>
   \<not> kept 0x25 \<and> encode_range (S ''%'') = Inr (S ''%25'') \<and> 0x25 \<in> set (S ''%25'')"
  using encode_range_surrogate encode_range_percent by (rule conjI)

text \<open>
  The hypotheses of the amended claim C1 hold at \<open>A1:B2\<close> (kept characters only), at
  \<open>a b\<close> (encodable, with a space to escape) and at the lone surrogate \<open>U+D800\<close>.
\<close>

theorem encode_range_amended_witness:
  "list_all kept (S ''A1:B2'') \<and> encode_range (S ''A1:B2'') = Inr (S ''A1:B2'') \<and>
   list_all encodable (S ''a b'') \<and> (\<exists>t. encode_range (S ''a b'') = Inr t) \<and>
   \<not> encodable 0xD800 \<and> encode_range [0xD800] = Inl UnicodeEncodeError \<and>
   encode_range (S ''a b'') = Inr (S ''a%20b'') \<and> 0x20 \<in> set (S ''a b'') \<and> \<not> kept 0x20 \<and>
   S ''a%20b'' \<noteq> S ''a b'' \<and> list_all (\<lambda>x. kept x \<or> x = 0x25) (S ''a%20b'') \<and>
   well_escaped (S ''a%20b'') \<and> 0x20 \<notin> set (S ''a%20b'')"
proof -
  have k: "\<forall>c \<in> set (S ''A1:B2''). kept c"
    by code_simp
  have e: "\<forall>c \<in> set (S ''a b''). encodable c"
    by (simp add: S_def encodable_def is_surrogate_def)
  have n: "\<exists>c \<in> set [0xD800]. \<not> encodable c"
    by (simp add: encodable_def is_surrogate_def)
  have r: "encode_range (S ''a b'') = Inr (S ''a%20b'') \<and> 0x20 \<in> set (S ''a b'') \<and> \<not> kept 0x20"
    by code_simp
  from k encode_range_amended [of "S ''A1:B2''" "S ''A1:B2''" 0]
  have 1: "encode_range (S ''A1:B2'') = Inr (S ''A1:B2'')"
    by (rule conjunct1 [THEN mp, rotated])
  from e encode_range_amended [of "S ''a b''" "S ''a%20b''" "0x20"]
  have 2: "\<exists>t. encode_range (S ''a b'') = Inr t"
    by (rule conjunct2 [THEN conjunct1, THEN mp, rotated])
  from n encode_range_amended [of "[0xD800]" "[]" 0]
  have 3: "encode_range [0xD800] = Inl UnicodeEncodeError"
    by (rule conjunct2 [THEN conjunct2, THEN conjunct1, THEN mp, rotated])
  from r encode_range_amended [of "S ''a b''" "S ''a%20b''" "0x20"]
  have 4: "S ''a%20b'' \<noteq> S ''a b'' \<and> (\<forall>x \<in> set (S ''a%20b''). kept x \<or> x = 0x25) \<and>
    well_escaped (S ''a%20b'') \<and> (0x20 \<noteq> (0x25::nat) \<longrightarrow> 0x20 \<notin> set (S ''a%20b''))"
    by (rule conjunct2 [THEN conjunct2, THEN conjunct2, THEN mp, rotated])
  from k e n r 1 2 3 4 show ?thesis by (simp add: list_all_iff)
qed

section \<open>The decoder: more fuel changes no result\<close>

lemma fuel_mono:
  "(scan_once f s = Inr r \<longrightarrow> scan_once (f + k) s = Inr r) \<and>
   (parse_array f s vs = Inr r \<longrightarrow> parse_array (f + k) s vs = Inr r) \<and>
   (parse_object f s ps = Inr r \<longrightarrow> parse_object (f + k) s ps = Inr r)"
proof (induction f arbitrary: s vs ps r)
  case 0
  show ?case by simp
next
  case (Suc f)
  have so: "scan_once f s = Inr r \<Longrightarrow> scan_once (f + k) s = Inr r" for s r
    using Suc by blast
  have pa: "parse_array f s vs = Inr r \<Longrightarrow> parse_array (f + k) s vs = Inr r" for s vs r
    using Suc by blast
  have po: "parse_object f s ps = Inr r \<Longrightarrow> parse_object (f + k) s ps = Inr r" for s ps r
    using Suc by blast
  have 1: "scan_once (Suc f) s = Inr r \<longrightarrow> scan_once (Suc f + k) s = Inr r"
    by (auto split: list.splits if_splits sum.splits option.splits prod.splits dest: pa po)
  have 2: "parse_array (Suc f) s vs = Inr r \<longrightarrow> parse_array (Suc f + k) s vs = Inr r"
  proof
    assume a: "parse_array (Suc f) s vs = Inr r"
    then obtain v s1 where v: "scan_once f s = Inr (v, s1)"
      by (auto split: sum.splits)
    from so [OF v] have v': "scan_once (f + k) s = Inr (v, s1)" .
    from a show "parse_array (Suc f + k) s vs = Inr r"
      by (auto simp: v v' split: list.splits if_splits dest: pa)
  qed
  have 3: "parse_object (Suc f) s ps = Inr r \<longrightarrow> parse_object (Suc f + k) s ps = Inr r"
  proof
    assume a: "parse_object (Suc f) s ps = Inr r"
    then obtain key s1 where key: "scanstring s = Inr (key, s1)"
      by (auto split: sum.splits)
    with a obtain c s2 where s2: "skip_ws s1 = c # s2" and c: "c = 0x3A"
      by (auto split: list.splits if_splits)
    with a key obtain v s3 where v: "scan_once f (skip_ws s2) = Inr (v, s3)"
      by (auto split: sum.splits)
    from so [OF v] have v': "scan_once (f + k) (skip_ws s2) = Inr (v, s3)" .
    from a show "parse_object (Suc f + k) s ps = Inr r"
      by (auto simp: key s2 c v v' split: list.splits if_splits dest: po)
  qed
  from 1 2 3 show ?case by blast
qed

lemma loads_fuel:
  assumes "scan_once f (skip_ws s) = Inr (obj, rest)" and "skip_ws rest = []"
    and "take 1 s \<noteq> [0xFEFF]" and "f \<le> 2 * length s + 2"
  shows "loads s = Inr obj"
proof -
  from assms(4) obtain k where k: "2 * length s + 2 = f + k"
    using le_Suc_ex by blast
  from fuel_mono [of f "skip_ws s" "(obj, rest)" k] assms(1)
  have "scan_once (f + k) (skip_ws s) = Inr (obj, rest)" by blast
  with k assms(2,3) show ?thesis by (simp add: loads_def)
qed


section \<open>The decoder: it reads forward, and the fuel is enough\<close>

lemma cons_char_Inr:
  "cons_char ch r = Inr (str, rest) \<longleftrightarrow> (\<exists>str'. r = Inr (str', rest) \<and> str = ch # str')"
  by (auto simp: cons_char_def split: sum.splits)

lemma cons_char_Inl: "cons_char ch r = Inl e \<longleftrightarrow> r = Inl e"
  by (auto simp: cons_char_def split: sum.splits)

lemma scanstring_shorter: "scanstring s = Inr (str, rest) \<Longrightarrow> length rest < length s"
proof (induction s arbitrary: str rule: scanstring.induct)
  case 1
  then show ?case by simp
next
  case (2 c cs)
  show ?case
  proof (cases "c = 0x22")
    case True
    with "2.prems" show ?thesis by simp
  next
    case nq: False
    show ?thesis
    proof (cases "c = 0x5C")
      case False
      with nq "2.prems" obtain str' where "scanstring cs = Inr (str', rest)"
        by (auto simp: cons_char_Inr split: if_splits)
      with "2.IH"(5) [OF nq False] "2.prems" nq False show ?thesis
        by (fastforce split: if_splits)
    next
      case bs: True
      with nq "2.prems" obtain esc rest0 where cs: "cs = esc # rest0"
        by (cases cs) auto
      show ?thesis
      proof (cases "esc = 0x75")
        case False
        with nq bs cs "2.prems" obtain ch str' where "backslash esc = Some ch"
          and "scanstring rest0 = Inr (str', rest)"
          by (auto simp: cons_char_Inr split: option.splits)
        with "2.IH"(4) [OF nq bs cs False] cs show ?thesis by fastforce
      next
        case u: True
        with nq bs cs "2.prems" obtain uni where uni: "decode_uXXXX rest0 = Some uni"
          by (auto split: option.splits)
        show ?thesis
        proof (cases "0xD800 \<le> uni \<and> uni \<le> 0xDBFF \<and> take 2 (drop 4 rest0) = [0x5C, 0x75]")
          case False
          with nq bs cs u uni "2.prems" obtain str' where
            "scanstring (drop 4 rest0) = Inr (str', rest)"
            by (auto simp: cons_char_Inr)
          with "2.IH"(3) [OF nq bs cs u uni False] cs show ?thesis by fastforce
        next
          case hi: True
          with nq bs cs u uni "2.prems" obtain uni2 where uni2: "decode_uXXXX (drop 6 rest0) = Some uni2"
            by (auto split: option.splits)
          show ?thesis
          proof (cases "0xDC00 \<le> uni2 \<and> uni2 \<le> 0xDFFF")
            case True
            with nq bs cs u uni hi uni2 "2.prems" obtain str' where
              "scanstring (drop 10 rest0) = Inr (str', rest)"
              by (auto simp: cons_char_Inr)
            with "2.IH"(1) [OF nq bs cs u uni hi uni2 True] cs show ?thesis by fastforce
          next
            case False
            with nq bs cs u uni hi uni2 "2.prems" obtain str' where
              "scanstring (drop 4 rest0) = Inr (str', rest)"
              by (auto simp: cons_char_Inr)
            with "2.IH"(2) [OF nq bs cs u uni hi uni2 False] cs show ?thesis by fastforce
          qed
        qed
      qed
    qed
  qed
qed

lemma scanstring_error: "scanstring s = Inl e \<Longrightarrow> e = JSONDecodeError"
proof (induction s rule: scanstring.induct)
  case 1
  then show ?case by simp
next
  case (2 c cs)
  then show ?case
    by (auto simp: cons_char_Inl split: if_splits list.splits option.splits)
qed


lemma skip_ws_length: "length (skip_ws s) \<le> length s"
  by (simp add: skip_ws_def length_dropWhile_le)

lemma skip_ws_Cons: "skip_ws s = c # cs \<Longrightarrow> length cs < length s"
  using skip_ws_length [of s] by simp

lemma match_number_shorter:
  assumes "match_number s = Some (Inr (v, rest))"
  shows "length rest < length s"
proof -
  have d: "length (dropWhile is_digit ds) \<le> length ds" for ds
    by (rule length_dropWhile_le)
  show ?thesis
  proof (cases s)
    case Nil
    with assms show ?thesis by (simp add: match_number_def)
  next
    case (Cons c cs)
    show ?thesis
    proof (cases "c = 0x2D")
      case True
      with Cons assms obtain d' ds where cs: "cs = d' # ds"
        by (cases cs) (auto simp: match_number_def)
      with True Cons assms d [of ds] show ?thesis
        by (auto simp: match_number_def Let_def split: if_splits)
    next
      case False
      with Cons assms d [of cs] show ?thesis
        by (auto simp: match_number_def Let_def split: if_splits)
    qed
  qed
qed

lemma match_number_error: "match_number s = Some (Inl e) \<Longrightarrow> e = Unmodelled"
  by (auto simp: match_number_def Let_def split: list.splits if_splits)

lemma consumes:
  "(scan_once f s = Inr (v, rest) \<longrightarrow> length rest < length s) \<and>
   (parse_array f s vs = Inr (v, rest) \<longrightarrow> length rest < length s) \<and>
   (parse_object f s ps = Inr (v, rest) \<longrightarrow> length rest < length s)"
proof (induction f arbitrary: s vs ps v rest)
  case 0
  show ?case by simp
next
  case (Suc f)
  have so: "scan_once f s = Inr (v, rest) \<Longrightarrow> length rest < length s" for s v rest
    using Suc by blast
  have pa: "parse_array f s vs = Inr (v, rest) \<Longrightarrow> length rest < length s" for s vs v rest
    using Suc by blast
  have po: "parse_object f s ps = Inr (v, rest) \<Longrightarrow> length rest < length s" for s ps v rest
    using Suc by blast
  have 1: "scan_once (Suc f) s = Inr (v, rest) \<longrightarrow> length rest < length s"
  proof
    assume a: "scan_once (Suc f) s = Inr (v, rest)"
    then obtain c cs where s: "s = c # cs" by (cases s) auto
    consider (str) "c = 0x22" | (obj) "c \<noteq> 0x22" "c = 0x7B" | (arr) "c \<noteq> 0x22" "c \<noteq> 0x7B" "c = 0x5B"
      | (other) "c \<noteq> 0x22" "c \<noteq> 0x7B" "c \<noteq> 0x5B"
      by blast
    then show "length rest < length s"
    proof cases
      case str
      with a s obtain x where "scanstring cs = Inr (x, rest)"
        by (auto split: sum.splits)
      from scanstring_shorter [OF this] s show ?thesis by simp
    next
      case obj
      with a s obtain d ds where d: "skip_ws cs = d # ds"
        by (cases "skip_ws cs") auto
      from skip_ws_Cons [OF d] have l: "length ds < length cs" .
      from a s obj d have "rest = ds \<or> parse_object f ds [] = Inr (v, rest)"
        by (auto split: if_splits)
      with l po [of ds "[]" v rest] s show ?thesis by auto
    next
      case arr
      with a s obtain d ds where d: "skip_ws cs = d # ds"
        by (cases "skip_ws cs") auto
      from skip_ws_Cons [OF d] have l: "length ds < length cs" .
      from a s arr d have "rest = ds \<or> parse_array f (d # ds) [] = Inr (v, rest)"
        by (auto split: if_splits)
      with l pa [of "d # ds" "[]" v rest] s show ?thesis by auto
    next
      case other
      with a s have "(rest = drop 4 s \<or> rest = drop 5 s) \<or> match_number s = Some (Inr (v, rest))"
        by (auto split: if_splits option.splits)
      with match_number_shorter [of s v rest] s show ?thesis by auto
    qed
  qed
  have 2: "parse_array (Suc f) s vs = Inr (v, rest) \<longrightarrow> length rest < length s"
  proof
    assume a: "parse_array (Suc f) s vs = Inr (v, rest)"
    then obtain x s1 where x: "scan_once f s = Inr (x, s1)"
      by (auto split: sum.splits)
    from so [OF x] have l1: "length s1 < length s" .
    from a x obtain d s2 where d: "skip_ws s1 = d # s2"
      by (cases "skip_ws s1") auto
    from skip_ws_Cons [OF d] have l2: "length s2 < length s1" .
    from a x d have "rest = s2 \<or> parse_array f (skip_ws s2) (vs @ [x]) = Inr (v, rest)"
      by (auto split: if_splits)
    with pa [of "skip_ws s2" "vs @ [x]" v rest] skip_ws_length [of s2] l1 l2
    show "length rest < length s" by auto
  qed
  have 3: "parse_object (Suc f) s ps = Inr (v, rest) \<longrightarrow> length rest < length s"
  proof
    assume a: "parse_object (Suc f) s ps = Inr (v, rest)"
    then obtain key s1 where key: "scanstring s = Inr (key, s1)"
      by (auto split: sum.splits)
    from scanstring_shorter [OF key] have l1: "length s1 < length s" .
    from a key obtain c s2 where s2: "skip_ws s1 = c # s2" and c: "c = 0x3A"
      by (auto split: list.splits if_splits)
    from skip_ws_Cons [OF s2] have l2: "length s2 < length s1" .
    from a key s2 c obtain x s3 where x: "scan_once f (skip_ws s2) = Inr (x, s3)"
      by (auto split: sum.splits)
    from so [OF x] skip_ws_length [of s2] have l3: "length s3 < length s2" by simp
    from a key s2 c x obtain d s4 where d: "skip_ws s3 = d # s4"
      by (cases "skip_ws s3") auto
    from skip_ws_Cons [OF d] have l4: "length s4 < length s3" .
    from a key s2 c x d have
      "rest = s4 \<or> (\<exists>q s5. skip_ws s4 = q # s5 \<and> parse_object f s5 (ps @ [(key, x)]) = Inr (v, rest))"
      by (auto split: if_splits list.splits)
    then show "length rest < length s"
    proof
      assume "rest = s4"
      with l1 l2 l3 l4 show ?thesis by simp
    next
      assume "\<exists>q s5. skip_ws s4 = q # s5 \<and> parse_object f s5 (ps @ [(key, x)]) = Inr (v, rest)"
      then obtain q s5 where q: "skip_ws s4 = q # s5"
        and p: "parse_object f s5 (ps @ [(key, x)]) = Inr (v, rest)" by blast
      from skip_ws_Cons [OF q] po [OF p] l1 l2 l3 l4 show ?thesis by simp
    qed
  qed
  from 1 2 3 show ?case by blast
qed

lemma scan_once_shorter: "scan_once f s = Inr (v, rest) \<Longrightarrow> length rest < length s"
  using consumes [of f s v rest "[]" "[]"] by blast

lemma fuel_enough:
  "(2 * length s < f \<longrightarrow> scan_once f s \<noteq> Inl OutOfFuel) \<and>
   (2 * length s + 1 < f \<longrightarrow> parse_array f s vs \<noteq> Inl OutOfFuel) \<and>
   (2 * length s + 1 < f \<longrightarrow> parse_object f s ps \<noteq> Inl OutOfFuel)"
proof (induction f arbitrary: s vs ps)
  case 0
  show ?case by simp
next
  case (Suc f)
  have so: "2 * length s < f \<Longrightarrow> scan_once f s \<noteq> Inl OutOfFuel" for s
    using Suc by blast
  have pa: "2 * length s + 1 < f \<Longrightarrow> parse_array f s vs \<noteq> Inl OutOfFuel" for s vs
    using Suc by blast
  have po: "2 * length s + 1 < f \<Longrightarrow> parse_object f s ps \<noteq> Inl OutOfFuel" for s ps
    using Suc by blast
  have 1: "2 * length s < Suc f \<longrightarrow> scan_once (Suc f) s \<noteq> Inl OutOfFuel"
  proof (intro impI notI)
    assume f: "2 * length s < Suc f" and a: "scan_once (Suc f) s = Inl OutOfFuel"
    from a obtain c cs where s: "s = c # cs" by (cases s) auto
    consider (str) "c = 0x22" | (obj) "c \<noteq> 0x22" "c = 0x7B" | (arr) "c \<noteq> 0x22" "c \<noteq> 0x7B" "c = 0x5B"
      | (other) "c \<noteq> 0x22" "c \<noteq> 0x7B" "c \<noteq> 0x5B"
      by blast
    then show False
    proof cases
      case str
      with a s have "scanstring cs = Inl OutOfFuel"
        by (auto split: sum.splits)
      from scanstring_error [OF this] show False by simp
    next
      case obj
      with a s obtain d ds where d: "skip_ws cs = d # ds"
        by (cases "skip_ws cs") auto
      from skip_ws_Cons [OF d] f s have "2 * length ds + 1 < f" by simp
      from po [OF this, of "[]"] a s obj d show False
        by (auto split: if_splits)
    next
      case arr
      with a s obtain d ds where d: "skip_ws cs = d # ds"
        by (cases "skip_ws cs") auto
      from skip_ws_Cons [OF d] f s have "2 * length (d # ds) + 1 < f" by simp
      from pa [OF this, of "[]"] a s arr d show False
        by (auto split: if_splits)
    next
      case other
      with a s have "match_number s = Some (Inl OutOfFuel)"
        by (auto split: if_splits option.splits)
      from match_number_error [OF this] show False by simp
    qed
  qed
  have 2: "2 * length s + 1 < Suc f \<longrightarrow> parse_array (Suc f) s vs \<noteq> Inl OutOfFuel"
  proof (intro impI notI)
    assume f: "2 * length s + 1 < Suc f" and a: "parse_array (Suc f) s vs = Inl OutOfFuel"
    from f have "2 * length s < f" by simp
    from so [OF this] a obtain x s1 where x: "scan_once f s = Inr (x, s1)"
      by (cases "scan_once f s") auto
    from scan_once_shorter [OF x] have l1: "length s1 < length s" .
    from a x obtain d s2 where d: "skip_ws s1 = d # s2"
      by (cases "skip_ws s1") auto
    from skip_ws_Cons [OF d] l1 f skip_ws_length [of s2]
    have "2 * length (skip_ws s2) + 1 < f" by simp
    from pa [OF this, of "vs @ [x]"] a x d show False
      by (auto split: if_splits)
  qed
  have 3: "2 * length s + 1 < Suc f \<longrightarrow> parse_object (Suc f) s ps \<noteq> Inl OutOfFuel"
  proof (intro impI notI)
    assume f: "2 * length s + 1 < Suc f" and a: "parse_object (Suc f) s ps = Inl OutOfFuel"
    from a scanstring_error [of s OutOfFuel] obtain key s1 where key: "scanstring s = Inr (key, s1)"
      by (cases "scanstring s") auto
    from scanstring_shorter [OF key] have l1: "length s1 < length s" .
    from a key obtain c s2 where s2: "skip_ws s1 = c # s2" and c: "c = 0x3A"
      by (auto split: list.splits if_splits)
    from skip_ws_Cons [OF s2] have l2: "length s2 < length s1" .
    from l1 l2 f skip_ws_length [of s2] have "2 * length (skip_ws s2) < f" by simp
    from so [OF this] a key s2 c obtain x s3 where x: "scan_once f (skip_ws s2) = Inr (x, s3)"
      by (cases "scan_once f (skip_ws s2)") auto
    from scan_once_shorter [OF x] skip_ws_length [of s2]
    have l3: "length s3 < length s2" by simp
    from a key s2 c x obtain d s4 where d: "skip_ws s3 = d # s4"
      by (cases "skip_ws s3") auto
    from skip_ws_Cons [OF d] have l4: "length s4 < length s3" .
    from a key s2 c x d obtain q s5 where q: "skip_ws s4 = q # s5"
      and p: "parse_object f s5 (ps @ [(key, x)]) = Inl OutOfFuel"
      by (auto split: if_splits list.splits)
    from skip_ws_Cons [OF q] l1 l2 l3 l4 f have "2 * length s5 + 1 < f" by simp
    from po [OF this] p show False by blast
  qed
  from 1 2 3 show ?case by blast
qed

lemma loads_fuel_enough: "loads s \<noteq> Inl OutOfFuel"
proof -
  from skip_ws_length [of s] have "2 * length (skip_ws s) < 2 * length s + 2" by simp
  with fuel_enough [of "skip_ws s" "2 * length s + 2"]
  have "scan_once (2 * length s + 2) (skip_ws s) \<noteq> Inl OutOfFuel" by blast
  then show ?thesis
    by (auto simp: loads_def split: sum.splits if_splits)
qed


section \<open>The result envelope\<close>

lemma replicate_num: "replicate (numeral k) x = x # replicate (pred_numeral k) x"
  by (simp add: numeral_eq_Suc)

lemmas dumps_eval = dumps_def S_def newline_indent_def encode_basestring_ascii_def
  needs_escape_def replicate_num

lemmas scan_eval = S_def skip_ws_def is_ws_def cons_char_def match_number_def dict_of_pairs_def

lemma dumps_error_fallback:
  "dumps (JDict [(S ''error'', JStr (S ''Request failed''))]) =
     S ''{'' @ [0x0A] @ S ''  \"error\": \"Request failed\"'' @ [0x0A] @ S ''}''"
  by (simp add: dumps_eval)

lemma loads_error_fallback:
  "loads (S ''{'' @ [0x0A] @ S ''  \"error\": \"Request failed\"'' @ [0x0A] @ S ''}'') =
     Inr (JDict [(S ''error'', JStr (S ''Request failed''))])"
proof (rule loads_fuel [where f = "Suc (Suc (Suc 0))" and rest = "[]"])
  show "scan_once (Suc (Suc (Suc 0)))
      (skip_ws (S ''{'' @ [0x0A] @ S ''  \"error\": \"Request failed\"'' @ [0x0A] @ S ''}'')) =
    Inr (JDict [(S ''error'', JStr (S ''Request failed''))], [])"
    by (simp add: scan_eval)
qed (simp_all add: S_def skip_ws_def)



lemma req_failure:
  assumes "dispatch (S ''google-sheets-mcp'')
             \<lparr>request_method = method, request_path = path, request_body = body\<rparr> = resp"
    and "\<not> success resp"
  shows "req dispatch method path body =
     Inr [\<lparr>type = S ''text'',
           text_field = dumps (JDict [(S ''error'',
             JStr (case error resp of Some e \<Rightarrow> message e | None \<Rightarrow> S ''Request failed''))])\<rparr>]"
  using assms by (simp add: req_def)


text \<open>
  Claim C3, as amended. When the dispatcher reports a failure and supplies no error
  object, the envelope \<open>_req\<close> returns is one text item whose text is the rendering of
  \<open>{"error": "Request failed"}\<close>, and \<open>json.loads\<close> reads exactly that object back
  from it.
\<close>

theorem req_failure_no_message:
  assumes "dispatch (S ''google-sheets-mcp'')
             \<lparr>request_method = method, request_path = path, request_body = body\<rparr> = resp"
    and "\<not> success resp" and "error resp = None"
  shows "req dispatch method path body =
           Inr [\<lparr>type = S ''text'',
                 text_field = S ''{'' @ [0x0A] @ S ''  \"error\": \"Request failed\"'' @ [0x0A] @ S ''}''\<rparr>]
         \<and> loads (S ''{'' @ [0x0A] @ S ''  \"error\": \"Request failed\"'' @ [0x0A] @ S ''}'') =
           Inr (JDict [(S ''error'', JStr (S ''Request failed''))])"
proof
  from req_failure [of dispatch "method" "path" body resp] assms dumps_error_fallback
  show "req dispatch method path body =
           Inr [\<lparr>type = S ''text'',
                 text_field = S ''{'' @ [0x0A] @ S ''  \"error\": \"Request failed\"'' @ [0x0A] @ S ''}''\<rparr>]"
    by simp
  show "loads (S ''{'' @ [0x0A] @ S ''  \"error\": \"Request failed\"'' @ [0x0A] @ S ''}'') =
           Inr (JDict [(S ''error'', JStr (S ''Request failed''))])"
    by (rule loads_error_fallback)
qed

text \<open>
  The hypotheses of the amended claim C3 hold for a simulated dispatcher that fails
  without an error object.
\<close>

theorem req_failure_no_message_witness:
  "\<not> success \<lparr>success = False, response = None, error = None\<rparr> \<and>
   error \<lparr>success = False, response = None, error = None\<rparr> = None \<and>
   req (simulated \<lparr>success = False, response = None, error = None\<rparr>) GET (S ''/v4/spreadsheets'') JNull =
     Inr [\<lparr>type = S ''text'',
           text_field = S ''{'' @ [0x0A] @ S ''  \"error\": \"Request failed\"'' @ [0x0A] @ S ''}''\<rparr>]"
  using req_failure_no_message [of "simulated \<lparr>success = False, response = None, error = None\<rparr>"
      GET "S ''/v4/spreadsheets''" JNull "\<lparr>success = False, response = None, error = None\<rparr>"]
  by (simp add: simulated_def)

lemma dumps_error_empty:
  "dumps (JDict [(S ''error'', JStr [])]) = S ''{'' @ [0x0A] @ S ''  \"error\": \"\"'' @ [0x0A] @ S ''}''"
  by (simp add: dumps_eval)

lemma loads_error_empty:
  "loads (S ''{'' @ [0x0A] @ S ''  \"error\": \"\"'' @ [0x0A] @ S ''}'') =
     Inr (JDict [(S ''error'', JStr [])])"
proof (rule loads_fuel [where f = "Suc (Suc (Suc 0))" and rest = "[]"])
  show "scan_once (Suc (Suc (Suc 0)))
      (skip_ws (S ''{'' @ [0x0A] @ S ''  \"error\": \"\"'' @ [0x0A] @ S ''}'')) =
    Inr (JDict [(S ''error'', JStr [])], [])"
    by (simp add: scan_eval)
qed (simp_all add: S_def skip_ws_def)

text \<open>
  Claim C3 as stated fails for a failure whose error object carries an empty message:
  the code tests the error object, not the message, so no human-readable message is
  supplied and yet the text is the rendering of \<open>{"error": ""}\<close>, which reads back as
  that object and not as \<open>{"error": "Request failed"}\<close>.
\<close>

theorem req_failure_no_message_counterexample:
  "\<not> success \<lparr>success = False, response = None, error = Some \<lparr>message = []\<rparr>\<rparr> \<and>
   req (simulated \<lparr>success = False, response = None, error = Some \<lparr>message = []\<rparr>\<rparr>)
       GET (S ''/v4/spreadsheets'') JNull =
     Inr [\<lparr>type = S ''text'',
           text_field = S ''{'' @ [0x0A] @ S ''  \"error\": \"\"'' @ [0x0A] @ S ''}''\<rparr>] \<and>
   loads (S ''{'' @ [0x0A] @ S ''  \"error\": \"\"'' @ [0x0A] @ S ''}'') =
     Inr (JDict [(S ''error'', JStr [])]) \<and>
   JDict [(S ''error'', JStr [])] \<noteq> JDict [(S ''error'', JStr (S ''Request failed''))]"
proof (intro conjI)
  let ?R = "\<lparr>success = False, response = None, error = Some \<lparr>message = []\<rparr>\<rparr>"
  show "\<not> success ?R" by simp
  have a1: "simulated ?R (S ''google-sheets-mcp'')
      \<lparr>request_method = GET, request_path = S ''/v4/spreadsheets'', request_body = JNull\<rparr> = ?R"
    by (simp add: simulated_def)
  have a2: "\<not> success ?R" by simp
  from req_failure [of "simulated ?R" GET "S ''/v4/spreadsheets''" JNull ?R, OF a1 a2]
    dumps_error_empty
  show "req (simulated ?R) GET (S ''/v4/spreadsheets'') JNull =
     Inr [\<lparr>type = S ''text'',
           text_field = S ''{'' @ [0x0A] @ S ''  \"error\": \"\"'' @ [0x0A] @ S ''}''\<rparr>]"
    by simp
  show "loads (S ''{'' @ [0x0A] @ S ''  \"error\": \"\"'' @ [0x0A] @ S ''}'') =
     Inr (JDict [(S ''error'', JStr [])])"
    by (rule loads_error_empty)
  show "JDict [(S ''error'', JStr [])] \<noteq> JDict [(S ''error'', JStr (S ''Request failed''))]"
    by (simp add: S_def)
qed









section \<open>The request builders\<close>

lemma foldl_append_map: "foldl (\<lambda>ps r. ps @ [f r]) params xs = params @ map f xs"
  by (induction xs arbitrary: params) simp_all

lemma split_not_Nil: "split sep s \<noteq> []"
  by (induction s) (auto split: list.splits)

lemma split_join: "join [sep] (split sep s) = s"
proof (induction s)
  case Nil
  show ?case by simp
next
  case (Cons c cs)
  from split_not_Nil [of sep cs] obtain w ws where w: "split sep cs = w # ws"
    by (cases "split sep cs") auto
  with Cons show ?case by (cases ws) auto
qed

lemma split_no_sep: "w \<in> set (split sep s) \<Longrightarrow> sep \<notin> set w"
proof (induction s arbitrary: w)
  case Nil
  then show ?case by simp
next
  case (Cons c cs)
  then show ?case by (auto split: if_splits list.splits)
qed

lemma rev_dropWhile_split: "xs = rev (dropWhile P (rev xs)) @ rev (takeWhile P (rev xs))"
proof -
  have "rev (rev xs) = rev (takeWhile P (rev xs) @ dropWhile P (rev xs))"
    by (simp only: takeWhile_dropWhile_id)
  then show ?thesis by (simp only: rev_append rev_rev_ident)
qed

lemma strip_suffix:
  "dropWhile isspace r = strip r @ rev (takeWhile isspace (rev (dropWhile isspace r)))"
  unfolding strip_def by (rule rev_dropWhile_split)

lemma strip_decompose:
  "\<exists>a b. r = a @ strip r @ b \<and> list_all isspace a \<and> list_all isspace b"
proof -
  let ?m = "dropWhile isspace r"
  let ?b = "rev (takeWhile isspace (rev ?m))"
  have "r = takeWhile isspace r @ ?m" by simp
  also have "?m = strip r @ ?b" by (rule strip_suffix)
  finally have 1: "r = takeWhile isspace r @ strip r @ ?b" .
  have 3: "list_all isspace (takeWhile isspace r)"
    by (simp add: list_all_iff) (meson set_takeWhileD)
  have 4: "list_all isspace ?b"
    by (simp add: list_all_iff) (meson set_takeWhileD)
  from 1 3 4 show ?thesis by blast
qed

lemma strip_ends:
  assumes "strip r \<noteq> []"
  shows "\<not> isspace (hd (strip r)) \<and> \<not> isspace (last (strip r))"
proof -
  let ?m = "dropWhile isspace r"
  let ?d = "dropWhile isspace (rev ?m)"
  from assms have d: "?d \<noteq> []" unfolding strip_def rev_is_Nil_conv .
  then have "\<not> isspace (hd ?d)" by (rule hd_dropWhile)
  moreover have "last (strip r) = hd ?d" unfolding strip_def by (rule last_rev)
  ultimately have l: "\<not> isspace (last (strip r))" by simp
  have m: "?m \<noteq> []"
  proof
    assume "?m = []"
    then have "?d = []" by (simp only: rev.simps dropWhile.simps)
    with d show False by contradiction
  qed
  then have h: "\<not> isspace (hd ?m)" by (rule hd_dropWhile)
  from strip_suffix [of r] assms have "hd ?m = hd (strip r)" by (metis hd_append2)
  with h l show ?thesis by simp
qed

lemma encode_range_sheet1: "encode_range (S ''Sheet 1!A1:B2'') = Inr (S ''Sheet%201!A1:B2'')"
  by (simp add: encode_range_def quote_def quote_from_bytes_def S_def utf8_char_def
      bytes_rstrip_def ALWAYS_SAFE_def quoter_def percent_02X_def hex_upper_def)

lemma sheets_update_values_unfold:
  "encode_range range' = Inr encoded_range \<Longrightarrow>
   sheets_update_values dispatch spreadsheet_id range' values value_input_option
       include_values_in_response =
     req dispatch PUT
       (S ''/v4/spreadsheets/'' @ spreadsheet_id @ S ''/values/'' @ encoded_range
          @ S ''?valueInputOption='' @ with_default (S ''USER_ENTERED'') value_input_option
          @ S ''&includeValuesInResponse=''
          @ lower (str_bool (with_default False include_values_in_response)))
       (JDict [(S ''values'', values)])"
  by (simp add: sheets_update_values_def S_def)

text \<open>
  Claim C2. The update-values tool called with the spreadsheet id \<open>abc123\<close> and the
  range \<open>Sheet 1!A1:B2\<close> dispatches, for every dispatcher, values and options, a PUT
  request whose path starts with \<open>/v4/spreadsheets/abc123/values/Sheet%201!A1:B2\<close>: the
  \<open>!\<close> and the \<open>:\<close> stay as they are and the space becomes \<open>%20\<close>. With the options
  left out the whole path is the one shown last.
\<close>

theorem sheets_update_values_path:
  "encode_range (S ''Sheet 1!A1:B2'') = Inr (S ''Sheet%201!A1:B2'') \<and>
   sheets_update_values dispatch (S ''abc123'') (S ''Sheet 1!A1:B2'') values value_input_option
       include_values_in_response =
     req dispatch PUT
       (S ''/v4/spreadsheets/abc123/values/Sheet%201!A1:B2''
          @ S ''?valueInputOption='' @ with_default (S ''USER_ENTERED'') value_input_option
          @ S ''&includeValuesInResponse=''
          @ lower (str_bool (with_default False include_values_in_response)))
       (JDict [(S ''values'', values)]) \<and>
   sheets_update_values dispatch (S ''abc123'') (S ''Sheet 1!A1:B2'') values None None =
     req dispatch PUT
       (S ''/v4/spreadsheets/abc123/values/Sheet%201!A1:B2?valueInputOption=USER_ENTERED&includeValuesInResponse=false'')
       (JDict [(S ''values'', values)])"
proof (intro conjI)
  show "encode_range (S ''Sheet 1!A1:B2'') = Inr (S ''Sheet%201!A1:B2'')"
    by (rule encode_range_sheet1)
  show "sheets_update_values dispatch (S ''abc123'') (S ''Sheet 1!A1:B2'') values value_input_option
       include_values_in_response =
     req dispatch PUT
       (S ''/v4/spreadsheets/abc123/values/Sheet%201!A1:B2''
          @ S ''?valueInputOption='' @ with_default (S ''USER_ENTERED'') value_input_option
          @ S ''&includeValuesInResponse=''
          @ lower (str_bool (with_default False include_values_in_response)))
       (JDict [(S ''values'', values)])"
    by (simp add: sheets_update_values_unfold [OF encode_range_sheet1]) (simp add: S_def)
  show "sheets_update_values dispatch (S ''abc123'') (S ''Sheet 1!A1:B2'') values None None =
     req dispatch PUT
       (S ''/v4/spreadsheets/abc123/values/Sheet%201!A1:B2?valueInputOption=USER_ENTERED&includeValuesInResponse=false'')
       (JDict [(S ''values'', values)])"
    by (simp add: sheets_update_values_unfold [OF encode_range_sheet1])
      (simp add: S_def with_default_def str_bool_def lower_def)
qed


text \<open>
  Claim C7. The create tool called with the title \<open>Budget\<close> and the sheet titles
  \<open>Jan, Feb\<close> posts the body
  \<open>{"properties": {"title": "Budget"}, "sheets": [{"properties": {"title": "Jan"}},
  {"properties": {"title": "Feb"}}]}\<close>. In general the sheet titles are split at the
  commas and each segment is stripped, one sheet-properties object for each; with no
  sheet titles the body has the properties only.
\<close>

theorem sheets_create_body:
  "sheets_create dispatch (S ''Budget'') (Some (S ''Jan, Feb'')) =
     req dispatch POST (S ''/v4/spreadsheets'')
       (JDict [(S ''properties'', JDict [(S ''title'', JStr (S ''Budget''))]),
               (S ''sheets'', JList [JDict [(S ''properties'', JDict [(S ''title'', JStr (S ''Jan''))])],
                                     JDict [(S ''properties'', JDict [(S ''title'', JStr (S ''Feb''))])]])])
   \<and> sheets_create dispatch title sheet_titles =
     req dispatch POST (S ''/v4/spreadsheets'')
       (JDict ((S ''properties'', JDict [(S ''title'', JStr title)]) #
               (if with_default [] sheet_titles = [] then []
                else [(S ''sheets'',
                       JList (map (\<lambda>t. JDict [(S ''properties'', JDict [(S ''title'', JStr (strip t))])])
                                (split 0x2C (with_default [] sheet_titles))))])))"
proof
  show "sheets_create dispatch (S ''Budget'') (Some (S ''Jan, Feb'')) =
     req dispatch POST (S ''/v4/spreadsheets'')
       (JDict [(S ''properties'', JDict [(S ''title'', JStr (S ''Budget''))]),
               (S ''sheets'', JList [JDict [(S ''properties'', JDict [(S ''title'', JStr (S ''Jan''))])],
                                     JDict [(S ''properties'', JDict [(S ''title'', JStr (S ''Feb''))])]])])"
    by (simp add: sheets_create_def with_default_def S_def strip_def isspace_def)
  show "sheets_create dispatch title sheet_titles =
     req dispatch POST (S ''/v4/spreadsheets'')
       (JDict ((S ''properties'', JDict [(S ''title'', JStr title)]) #
               (if with_default [] sheet_titles = [] then []
                else [(S ''sheets'',
                       JList (map (\<lambda>t. JDict [(S ''properties'', JDict [(S ''title'', JStr (strip t))])])
                                (split 0x2C (with_default [] sheet_titles))))])))"
    by (simp add: sheets_create_def S_def)
qed

text \<open>
  Claim C8. For every call of the batch-update-values tool the body of the request is
  the object of \<open>valueInputOption\<close>, \<open>includeValuesInResponse\<close> and \<open>data\<close>, in this
  order, and the value under \<open>data\<close> is the caller's \<open>data\<close> itself, whatever it is:
  nothing in it is encoded, stripped or rearranged, as the range \<open>" Sheet 1!A1 "\<close> of the
  example shows.
\<close>

theorem sheets_batch_update_values_body:
  "sheets_batch_update_values dispatch spreadsheet_id data value_input_option
       include_values_in_response =
     req dispatch POST (S ''/v4/spreadsheets/'' @ spreadsheet_id @ S ''/values:batchUpdate'')
       (JDict [(S ''valueInputOption'', JStr (with_default (S ''USER_ENTERED'') value_input_option)),
               (S ''includeValuesInResponse'', JBool (with_default False include_values_in_response)),
               (S ''data'', data)])
   \<and> sheets_batch_update_values dispatch spreadsheet_id
         (JList [JDict [(S ''range'', JStr (S '' Sheet 1!A1 '')),
                        (S ''values'', JList [JList [JStr (S ''x'')]])]]) None None =
     req dispatch POST (S ''/v4/spreadsheets/'' @ spreadsheet_id @ S ''/values:batchUpdate'')
       (JDict [(S ''valueInputOption'', JStr (S ''USER_ENTERED'')),
               (S ''includeValuesInResponse'', JBool False),
               (S ''data'', JList [JDict [(S ''range'', JStr (S '' Sheet 1!A1 '')),
                                          (S ''values'', JList [JList [JStr (S ''x'')]])]])])"
  by (simp add: sheets_batch_update_values_def with_default_def)

lemma sheets_batch_get_values_unfold:
  "sheets_batch_get_values dispatch spreadsheet_id ranges major_dimension value_render_option
       date_time_render_option =
     req dispatch GET
       (S ''/v4/spreadsheets/'' @ spreadsheet_id @ S ''/values:batchGet?''
          @ join (S ''&'')
              ([S ''majorDimension='' @ with_default (S ''ROWS'') major_dimension,
                S ''valueRenderOption='' @ with_default (S ''FORMATTED_VALUE'') value_render_option,
                S ''dateTimeRenderOption=''
                  @ with_default (S ''SERIAL_NUMBER'') date_time_render_option]
               @ map (\<lambda>r. S ''ranges='' @ strip r) (split 0x2C ranges)))
       JNull"
  by (simp add: sheets_batch_get_values_def foldl_append_map Let_def)

lemma split_example: "split 0x2C (S ''Sheet1!A1,Sheet1!B2'') = [S ''Sheet1!A1'', S ''Sheet1!B2'']"
  by (simp add: S_def)

lemma strip_example:
  "strip (S ''Sheet1!A1'') = S ''Sheet1!A1''" "strip (S ''Sheet1!B2'') = S ''Sheet1!B2''"
  by (simp_all add: S_def strip_def isspace_def)

text \<open>
  Claim C5. For every call of the batch-get-values tool the query string is the three
  rendering options followed by one \<open>ranges=\<close> pair for each segment of \<open>ranges\<close>, in
  the caller's order from left to right, each segment stripped. The segments are
  \<open>ranges\<close> split at the commas: joined by commas they give \<open>ranges\<close> back, and none
  holds a comma. Stripping a string \<open>r\<close> removes white space at its two ends and nothing
  else, and what is left neither starts nor ends with white space. For
  \<open>ranges = "Sheet1!A1,Sheet1!B2"\<close> and no options the query string ends with exactly the
  two pairs \<open>ranges=Sheet1!A1&ranges=Sheet1!B2\<close>.
\<close>

theorem sheets_batch_get_values_ranges:
  "sheets_batch_get_values dispatch spreadsheet_id ranges major_dimension value_render_option
       date_time_render_option =
     req dispatch GET
       (S ''/v4/spreadsheets/'' @ spreadsheet_id @ S ''/values:batchGet?''
          @ join (S ''&'')
              ([S ''majorDimension='' @ with_default (S ''ROWS'') major_dimension,
                S ''valueRenderOption='' @ with_default (S ''FORMATTED_VALUE'') value_render_option,
                S ''dateTimeRenderOption=''
                  @ with_default (S ''SERIAL_NUMBER'') date_time_render_option]
               @ map (\<lambda>r. S ''ranges='' @ strip r) (split 0x2C ranges)))
       JNull
   \<and> join [0x2C] (split 0x2C ranges) = ranges
   \<and> list_all (\<lambda>w. 0x2C \<notin> set w) (split 0x2C ranges)
   \<and> (\<exists>a b. r = a @ strip r @ b \<and> list_all isspace a \<and> list_all isspace b)
   \<and> (strip r = [] \<or> (\<not> isspace (hd (strip r)) \<and> \<not> isspace (last (strip r))))
   \<and> sheets_batch_get_values dispatch spreadsheet_id (S ''Sheet1!A1,Sheet1!B2'') None None None =
     req dispatch GET
       (S ''/v4/spreadsheets/'' @ spreadsheet_id
          @ S ''/values:batchGet?majorDimension=ROWS&valueRenderOption=FORMATTED_VALUE&dateTimeRenderOption=SERIAL_NUMBER&ranges=Sheet1!A1&ranges=Sheet1!B2'')
       JNull"
proof (intro conjI)
  show "sheets_batch_get_values dispatch spreadsheet_id ranges major_dimension value_render_option
       date_time_render_option =
     req dispatch GET
       (S ''/v4/spreadsheets/'' @ spreadsheet_id @ S ''/values:batchGet?''
          @ join (S ''&'')
              ([S ''majorDimension='' @ with_default (S ''ROWS'') major_dimension,
                S ''valueRenderOption='' @ with_default (S ''FORMATTED_VALUE'') value_render_option,
                S ''dateTimeRenderOption=''
                  @ with_default (S ''SERIAL_NUMBER'') date_time_render_option]
               @ map (\<lambda>r. S ''ranges='' @ strip r) (split 0x2C ranges)))
       JNull"
    by (rule sheets_batch_get_values_unfold)
  show "join [0x2C] (split 0x2C ranges) = ranges" by (rule split_join)
  show "list_all (\<lambda>w. 0x2C \<notin> set w) (split 0x2C ranges)"
    by (simp add: list_all_iff split_no_sep)
  show "\<exists>a b. r = a @ strip r @ b \<and> list_all isspace a \<and> list_all isspace b"
    by (rule strip_decompose)
  show "strip r = [] \<or> (\<not> isspace (hd (strip r)) \<and> \<not> isspace (last (strip r)))"
    using strip_ends [of r] by blast
  show "sheets_batch_get_values dispatch spreadsheet_id (S ''Sheet1!A1,Sheet1!B2'') None None None =
     req dispatch GET
       (S ''/v4/spreadsheets/'' @ spreadsheet_id
          @ S ''/values:batchGet?majorDimension=ROWS&valueRenderOption=FORMATTED_VALUE&dateTimeRenderOption=SERIAL_NUMBER&ranges=Sheet1!A1&ranges=Sheet1!B2'')
       JNull"
    by (simp add: sheets_batch_get_values_unfold split_example strip_example with_default_def)
      (simp add: S_def)
qed

lemma strip_split_example:
  "map strip (split 0x2C (S '' Sheet1!A1 ,Sheet1!B2'')) = [S ''Sheet1!A1'', S ''Sheet1!B2'']"
  by (simp add: S_def strip_def isspace_def)

text \<open>
  Claim C5 at \<open>ranges = " Sheet1!A1 ,Sheet1!B2"\<close>, with white space to strip: the same
  two pairs.
\<close>

theorem sheets_batch_get_values_ranges_witness:
  "list_all (\<lambda>w. 0x2C \<notin> set w) (split 0x2C (S '' Sheet1!A1 ,Sheet1!B2'')) \<and>
   map strip (split 0x2C (S '' Sheet1!A1 ,Sheet1!B2'')) = [S ''Sheet1!A1'', S ''Sheet1!B2''] \<and>
   sheets_batch_get_values (simulated \<lparr>success = False, response = None, error = None\<rparr>)
       (S ''abc123'') (S '' Sheet1!A1 ,Sheet1!B2'') None None None =
     req (simulated \<lparr>success = False, response = None, error = None\<rparr>) GET
       (S ''/v4/spreadsheets/abc123/values:batchGet?majorDimension=ROWS&valueRenderOption=FORMATTED_VALUE&dateTimeRenderOption=SERIAL_NUMBER&ranges=Sheet1!A1&ranges=Sheet1!B2'')
       JNull"
proof -
  note th = sheets_batch_get_values_ranges [of
      "simulated \<lparr>success = False, response = None, error = None\<rparr>" "S ''abc123''"
      "S '' Sheet1!A1 ,Sheet1!B2''" None None None "[]"]
  from th have 1: "list_all (\<lambda>w. 0x2C \<notin> set w) (split 0x2C (S '' Sheet1!A1 ,Sheet1!B2''))"
    by blast
  from th have "sheets_batch_get_values (simulated \<lparr>success = False, response = None, error = None\<rparr>)
       (S ''abc123'') (S '' Sheet1!A1 ,Sheet1!B2'') None None None =
     req (simulated \<lparr>success = False, response = None, error = None\<rparr>) GET
       (S ''/v4/spreadsheets/'' @ S ''abc123'' @ S ''/values:batchGet?''
          @ join (S ''&'')
              ([S ''majorDimension='' @ with_default (S ''ROWS'') None,
                S ''valueRenderOption='' @ with_default (S ''FORMATTED_VALUE'') None,
                S ''dateTimeRenderOption='' @ with_default (S ''SERIAL_NUMBER'') None]
               @ map (\<lambda>r. S ''ranges='' @ strip r) (split 0x2C (S '' Sheet1!A1 ,Sheet1!B2''))))
       JNull"
    by (rule conjunct1)
  also have "map (\<lambda>r. S ''ranges='' @ strip r) (split 0x2C (S '' Sheet1!A1 ,Sheet1!B2''))
      = map (\<lambda>r. S ''ranges='' @ r) (map strip (split 0x2C (S '' Sheet1!A1 ,Sheet1!B2'')))"
    by simp
  finally have 2: "sheets_batch_get_values (simulated \<lparr>success = False, response = None, error = None\<rparr>)
       (S ''abc123'') (S '' Sheet1!A1 ,Sheet1!B2'') None None None =
     req (simulated \<lparr>success = False, response = None, error = None\<rparr>) GET
       (S ''/v4/spreadsheets/abc123/values:batchGet?majorDimension=ROWS&valueRenderOption=FORMATTED_VALUE&dateTimeRenderOption=SERIAL_NUMBER&ranges=Sheet1!A1&ranges=Sheet1!B2'')
       JNull"
    by (simp only: strip_split_example) (simp add: S_def with_default_def)
  from 1 2 strip_split_example show ?thesis by blast
qed

lemma sheets_get_spreadsheet_no_ranges:
  "with_default [] ranges = [] \<Longrightarrow>
   sheets_get_spreadsheet dispatch spreadsheet_id include_grid_data ranges fields' =
     req dispatch GET
       (S ''/v4/spreadsheets/'' @ spreadsheet_id @ S ''?''
          @ join (S ''&'')
              ((S ''includeGridData='' @ lower (str_bool (with_default False include_grid_data)))
               # (if with_default [] fields' = [] then []
                  else [S ''fields='' @ with_default [] fields'])))
       JNull"
  by (simp add: sheets_get_spreadsheet_def Let_def)

text \<open>
  Claim C9. The batch-get-values tool called with the empty string for \<open>ranges\<close> still
  writes one \<open>ranges=\<close> pair, with an empty value, after the three options: splitting
  the empty string gives one empty segment. The get-spreadsheet tool called with the
  empty string for \<open>ranges\<close> writes no \<open>ranges=\<close> pair: its parameters are
  \<open>includeGridData\<close> and, when given, \<open>fields\<close>, and none of them starts with
  \<open>ranges=\<close>.
\<close>

theorem ranges_empty_string:
  "sheets_batch_get_values dispatch spreadsheet_id [] major_dimension value_render_option
       date_time_render_option =
     req dispatch GET
       (S ''/v4/spreadsheets/'' @ spreadsheet_id @ S ''/values:batchGet?''
          @ join (S ''&'')
              [S ''majorDimension='' @ with_default (S ''ROWS'') major_dimension,
               S ''valueRenderOption='' @ with_default (S ''FORMATTED_VALUE'') value_render_option,
               S ''dateTimeRenderOption=''
                 @ with_default (S ''SERIAL_NUMBER'') date_time_render_option,
               S ''ranges=''])
       JNull
   \<and> sheets_batch_get_values dispatch spreadsheet_id [] None None None =
     req dispatch GET
       (S ''/v4/spreadsheets/'' @ spreadsheet_id
          @ S ''/values:batchGet?majorDimension=ROWS&valueRenderOption=FORMATTED_VALUE&dateTimeRenderOption=SERIAL_NUMBER&ranges='')
       JNull
   \<and> sheets_get_spreadsheet dispatch spreadsheet_id include_grid_data (Some []) fields' =
     req dispatch GET
       (S ''/v4/spreadsheets/'' @ spreadsheet_id @ S ''?''
          @ join (S ''&'')
              ((S ''includeGridData='' @ lower (str_bool (with_default False include_grid_data)))
               # (if with_default [] fields' = [] then []
                  else [S ''fields='' @ with_default [] fields'])))
       JNull
   \<and> list_all (\<lambda>p. take 7 p \<noteq> S ''ranges='')
         ((S ''includeGridData='' @ lower (str_bool (with_default False include_grid_data)))
          # (if with_default [] fields' = [] then []
             else [S ''fields='' @ with_default [] fields']))
   \<and> sheets_get_spreadsheet dispatch spreadsheet_id None (Some []) None =
     req dispatch GET (S ''/v4/spreadsheets/'' @ spreadsheet_id @ S ''?includeGridData=false'')
       JNull
   \<and> split 0x2C [] = [[]] \<and> strip [] = []"
proof (intro conjI)
  show "sheets_batch_get_values dispatch spreadsheet_id [] major_dimension value_render_option
       date_time_render_option =
     req dispatch GET
       (S ''/v4/spreadsheets/'' @ spreadsheet_id @ S ''/values:batchGet?''
          @ join (S ''&'')
              [S ''majorDimension='' @ with_default (S ''ROWS'') major_dimension,
               S ''valueRenderOption='' @ with_default (S ''FORMATTED_VALUE'') value_render_option,
               S ''dateTimeRenderOption=''
                 @ with_default (S ''SERIAL_NUMBER'') date_time_render_option,
               S ''ranges=''])
       JNull"
    by (simp add: sheets_batch_get_values_unfold strip_def)
  show "sheets_batch_get_values dispatch spreadsheet_id [] None None None =
     req dispatch GET
       (S ''/v4/spreadsheets/'' @ spreadsheet_id
          @ S ''/values:batchGet?majorDimension=ROWS&valueRenderOption=FORMATTED_VALUE&dateTimeRenderOption=SERIAL_NUMBER&ranges='')
       JNull"
    by (simp add: sheets_batch_get_values_unfold strip_def with_default_def) (simp add: S_def)
  show "sheets_get_spreadsheet dispatch spreadsheet_id include_grid_data (Some []) fields' =
     req dispatch GET
       (S ''/v4/spreadsheets/'' @ spreadsheet_id @ S ''?''
          @ join (S ''&'')
              ((S ''includeGridData='' @ lower (str_bool (with_default False include_grid_data)))
               # (if with_default [] fields' = [] then []
                  else [S ''fields='' @ with_default [] fields'])))
       JNull"
    by (rule sheets_get_spreadsheet_no_ranges) (simp add: with_default_def)
  show "list_all (\<lambda>p. take 7 p \<noteq> S ''ranges='')
         ((S ''includeGridData='' @ lower (str_bool (with_default False include_grid_data)))
          # (if with_default [] fields' = [] then []
             else [S ''fields='' @ with_default [] fields']))"
    by (simp add: S_def)
  show "sheets_get_spreadsheet dispatch spreadsheet_id None (Some []) None =
     req dispatch GET (S ''/v4/spreadsheets/'' @ spreadsheet_id @ S ''?includeGridData=false'')
       JNull"
    by (simp add: sheets_get_spreadsheet_no_ranges with_default_def)
      (simp add: S_def str_bool_def lower_def)
  show "split 0x2C [] = [[]]" by simp
  show "strip [] = []" by (simp add: strip_def)
qed

text \<open>Claim C9 for the spreadsheet \<open>abc123\<close> and no options: the two paths.\<close>

theorem ranges_empty_string_witness:
  "sheets_batch_get_values (simulated \<lparr>success = False, response = None, error = None\<rparr>)
       (S ''abc123'') [] None None None =
     req (simulated \<lparr>success = False, response = None, error = None\<rparr>) GET
       (S ''/v4/spreadsheets/abc123/values:batchGet?majorDimension=ROWS&valueRenderOption=FORMATTED_VALUE&dateTimeRenderOption=SERIAL_NUMBER&ranges='')
       JNull
   \<and> sheets_get_spreadsheet (simulated \<lparr>success = False, response = None, error = None\<rparr>)
       (S ''abc123'') None (Some []) None =
     req (simulated \<lparr>success = False, response = None, error = None\<rparr>) GET
       (S ''/v4/spreadsheets/abc123?includeGridData=false'') JNull"
proof -
  note th = ranges_empty_string [of "simulated \<lparr>success = False, response = None, error = None\<rparr>"
      "S ''abc123''" None None None None None]
  have a: "sheets_batch_get_values (simulated \<lparr>success = False, response = None, error = None\<rparr>)
       (S ''abc123'') [] None None None =
     req (simulated \<lparr>success = False, response = None, error = None\<rparr>) GET
       (S ''/v4/spreadsheets/abc123/values:batchGet?majorDimension=ROWS&valueRenderOption=FORMATTED_VALUE&dateTimeRenderOption=SERIAL_NUMBER&ranges='')
       JNull"
    using th [THEN conjunct2, THEN conjunct1] by (simp add: S_def)
  have b: "sheets_get_spreadsheet (simulated \<lparr>success = False, response = None, error = None\<rparr>)
       (S ''abc123'') None (Some []) None =
     req (simulated \<lparr>success = False, response = None, error = None\<rparr>) GET
       (S ''/v4/spreadsheets/abc123?includeGridData=false'') JNull"
    using th [THEN conjunct2, THEN conjunct2, THEN conjunct2, THEN conjunct2, THEN conjunct1]
    by (simp add: S_def)
  from a b show ?thesis by (rule conjI)
qed


end
